theory Spec2Isabelle
  imports Main "HOL-Library.Word"
begin

section \<open>The WebAssembly call boundary of the clang-format binding\<close>

text \<open>
  The repository holds two builds of one C boundary around a formatting engine:
  \<^verbatim>\<open>part_000\<close> (exports named with \<^verbatim>\<open>export_name\<close>, lengths of type \<^verbatim>\<open>size_t\<close>,
  \<^verbatim>\<open>wasm_format\<close> returns \<^verbatim>\<open>WasmResult*\<close>) and \<^verbatim>\<open>wasi_binding.cc\<close> (exports kept alive
  by \<^verbatim>\<open>EMSCRIPTEN_KEEPALIVE\<close>, lengths of type \<^verbatim>\<open>int\<close>, \<^verbatim>\<open>wasm_format\<close> returns the status
  as \<^verbatim>\<open>int\<close>). The functions of the first file keep their names; those of the second
  file that differ carry the prefix \<open>wasi_\<close>.

  What the model fixes:
  \<^item> The target is wasm32: \<^verbatim>\<open>int\<close>, \<^verbatim>\<open>int32_t\<close> and \<^verbatim>\<open>size_t\<close> are 32 bits wide.
  \<^item> Addresses are abstract (natural numbers, 0 is \<^verbatim>\<open>nullptr\<close>); the linear memory is a
    function from addresses to bytes, and the bytes of a range can always be read.
  \<^item> \<^verbatim>\<open>malloc\<close> never fails and never hands out an address twice; \<^verbatim>\<open>free\<close> of a pointer
    that is neither null nor a live block is a fault.
  \<^item> In the style setters the constructor \<^verbatim>\<open>std::string s(style, style_len)\<close> fails for a
    length of \<open>2 ^ 31\<close> or more (a negative \<^verbatim>\<open>int\<close>): it throws, nothing catches, and the
    call does not return. In \<^verbatim>\<open>wasm_format\<close> the two ranges are those of the call's
    precondition (valid pointer and length pairs) and are read as given.
  \<^item> A \<^verbatim>\<open>std::string\<close> is its list of bytes. Only the calls of \<^verbatim>\<open>malloc\<close> and \<^verbatim>\<open>free\<close>
    written in the two files are traced, not the allocations inside the library.
  \<^item> The engine is a parameter: any function from the handle, the code and the file name
    to a \<^verbatim>\<open>Result\<close>; it does not change the handle.
\<close>

subsection \<open>Machine types\<close>

type_synonym byte = "8 word"
type_synonym bytes = "byte list"
type_synonym addr = nat
type_synonym int32 = "32 word"
type_synonym size_t = "32 word"

abbreviation nullptr :: addr where
  "nullptr \<equiv> 0"

text \<open>The implicit conversion of an \<^verbatim>\<open>int\<close> argument to \<^verbatim>\<open>size_t\<close>: the value modulo \<open>2 ^ 32\<close>.\<close>

definition size_t_of_int :: "int32 \<Rightarrow> size_t" where
  "size_t_of_int i = word_of_int (sint i)"

text \<open>\<^verbatim>\<open>std::string::size()\<close>, a \<^verbatim>\<open>size_t\<close>; its conversion to \<^verbatim>\<open>int32_t\<close> keeps the bits.\<close>

definition string_size :: "bytes \<Rightarrow> size_t" where
  "string_size str = word_of_nat (length str)"

definition int32_of_size_t :: "size_t \<Rightarrow> int32" where
  "int32_of_size_t n = word_of_int (uint n)"

subsection \<open>The engine of \<^verbatim>\<open>lib.h\<close>\<close>

datatype ResultStatus = Success | Error | Unchanged

record Result =
  result_status :: ResultStatus
  content :: bytes

text \<open>
  Modelled from the spec: the class \<^verbatim>\<open>ClangFormat\<close> of \<^verbatim>\<open>lib.h\<close> is not among the sources.
  The spec's data model gives the handle a primary and a fallback style, each an optional
  string, unset when the handle is constructed.
\<close>

record ClangFormat =
  primaryStyle :: "bytes option"
  fallbackStyle :: "bytes option"

text \<open>Modelled from the spec: the constructor \<^verbatim>\<open>ClangFormat()\<close> of \<^verbatim>\<open>lib.h\<close>, no style set.\<close>

definition new_ClangFormat :: ClangFormat where
  "new_ClangFormat = \<lparr>primaryStyle = None, fallbackStyle = None\<rparr>"

text \<open>
  Modelled from the spec: \<^verbatim>\<open>ClangFormat::with_style\<close> of \<^verbatim>\<open>lib.h\<close>, which stores the given
  string in the handle's primary style field.
\<close>

definition with_style :: "ClangFormat \<Rightarrow> bytes \<Rightarrow> ClangFormat" where
  "with_style f s = f\<lparr>primaryStyle := Some s\<rparr>"

text \<open>
  Modelled from the spec: \<^verbatim>\<open>ClangFormat::with_fallback_style\<close> of \<^verbatim>\<open>lib.h\<close>, which stores
  the given string in the handle's fallback style field.
\<close>

definition with_fallback_style :: "ClangFormat \<Rightarrow> bytes \<Rightarrow> ClangFormat" where
  "with_fallback_style f s = f\<lparr>fallbackStyle := Some s\<rparr>"

text \<open>
  \<^verbatim>\<open>ClangFormat::format\<close> and \<^verbatim>\<open>ClangFormat::version\<close> are the engine itself. They are
  parameters of the model: a function from the handle, the code and the file name to a
  \<^verbatim>\<open>Result\<close>, and a string.
\<close>

type_synonym engine = "ClangFormat \<Rightarrow> bytes \<Rightarrow> bytes \<Rightarrow> Result"

subsection \<open>The globals and the heap\<close>

record WasmResult =
  status :: int32
  content_ptr :: addr
  content_len :: int32

text \<open>The calls of \<^verbatim>\<open>malloc\<close> and \<^verbatim>\<open>free\<close> in the two files, in the order they happen.\<close>

datatype event = EvMalloc addr nat | EvFree addr

text \<open>
  The ways a call fails: \<^verbatim>\<open>free\<close> of a pointer that is no live block (a double free, a
  wild pointer), the call of an export that the file does not have
  (\<^verbatim>\<open>wasm_get_result_status\<close> in \<^verbatim>\<open>wasi_binding.cc\<close>), and a \<^verbatim>\<open>std::string\<close> constructor
  that throws because of the length it is given.
\<close>

datatype fault = InvalidFree addr | NoSuchExport | LengthError

text \<open>
  The state of the module: the linear memory, the blocks handed out by \<^verbatim>\<open>malloc\<close> and
  not yet freed (base and size), the next unused address, the trace of allocator calls,
  and the statics of the file. A function-local \<^verbatim>\<open>static std::string\<close> is \<open>None\<close> until its
  function runs first; afterwards it holds the address of its buffer and its value.
\<close>

record state =
  mem :: "addr \<Rightarrow> byte"
  live :: "(addr \<times> nat) list"
  brk :: addr
  events :: "event list"
  g_formatter :: "ClangFormat option"
  g_last_result :: WasmResult
  version_ver :: "(addr \<times> bytes) option"
  version_len_ver :: "(addr \<times> bytes) option"

text \<open>
  At load time: \<^verbatim>\<open>g_formatter = nullptr\<close>, \<^verbatim>\<open>g_last_result = {0, nullptr, 0}\<close> (written
  out in \<^verbatim>\<open>wasi_binding.cc\<close>, zero-initialised in the other file), nothing allocated.
\<close>

definition initial_state :: state where
  "initial_state =
     \<lparr>mem = (\<lambda>_. 0), live = [], brk = 1024, events = [],
      g_formatter = None,
      g_last_result = \<lparr>status = 0, content_ptr = nullptr, content_len = 0\<rparr>,
      version_ver = None, version_len_ver = None\<rparr>"

text \<open>
  The allocator never reuses an address and never fails: \<^verbatim>\<open>malloc\<close> returns the next unused
  address, which is not null. \<^verbatim>\<open>free(nullptr)\<close> does nothing, \<^verbatim>\<open>free\<close> of a live block
  removes it, \<^verbatim>\<open>free\<close> of anything else is a fault.
\<close>

definition malloc :: "state \<Rightarrow> size_t \<Rightarrow> addr \<times> state" where
  "malloc s n =
     (brk s,
      s\<lparr>live := (brk s, unat n) # live s,
        brk := brk s + max (unat n) 1,
        events := events s @ [EvMalloc (brk s) (unat n)]\<rparr>)"

definition free :: "state \<Rightarrow> addr \<Rightarrow> fault + state" where
  "free s p =
     (if p = nullptr then Inr s
      else if p \<in> fst ` set (live s)
      then Inr (s\<lparr>live := filter (\<lambda>b. fst b \<noteq> p) (live s),
                 events := events s @ [EvFree p]\<rparr>)
      else Inl (InvalidFree p))"

text \<open>The \<open>n\<close> bytes of the linear memory from \<open>p\<close> on.\<close>

definition string_of_range :: "state \<Rightarrow> addr \<Rightarrow> size_t \<Rightarrow> bytes" where
  "string_of_range s p n = map (mem s) [p ..< p + unat n]"

text \<open>
  The constructor \<^verbatim>\<open>std::string s(p, n)\<close> with a length that the caller chose freely. It
  throws \<^verbatim>\<open>std::length_error\<close> when \<open>n\<close> is above \<^verbatim>\<open>max_size()\<close>, and the copy needs \<open>n\<close> bytes
  beside the \<open>n\<close> bytes it reads. On wasm32 a length of \<open>2 ^ 31\<close> or more therefore never
  yields a string: the model takes \<open>2 ^ 31 - 1\<close>, the largest \<^verbatim>\<open>int\<close>, as the largest length
  that does. Below it the string is the bytes of the range.
\<close>

definition string_max_size :: nat where
  "string_max_size = 2 ^ 31 - 1"

definition std_string :: "state \<Rightarrow> addr \<Rightarrow> size_t \<Rightarrow> fault + bytes" where
  "std_string s p n =
     (if unat n \<le> string_max_size then Inr (string_of_range s p n) else Inl LengthError)"

text \<open>\<^verbatim>\<open>c_str()\<close>: the bytes of the string and a terminating zero.\<close>

definition c_str :: "bytes \<Rightarrow> bytes" where
  "c_str str = str @ [0]"

definition memcpy :: "state \<Rightarrow> addr \<Rightarrow> bytes \<Rightarrow> size_t \<Rightarrow> state" where
  "memcpy s dst src n =
     s\<lparr>mem := (\<lambda>a. if dst \<le> a \<and> a < dst + unat n then src ! (a - dst) else mem s a)\<rparr>"

text \<open>
  The construction of a static \<^verbatim>\<open>std::string\<close>: its buffer takes the next unused
  addresses and holds \<^verbatim>\<open>c_str()\<close>. The buffer belongs to the string, not to the blocks
  that the file itself allocates and frees.
\<close>

definition static_string :: "state \<Rightarrow> bytes \<Rightarrow> (addr \<times> bytes) \<times> state" where
  "static_string s str =
     ((brk s, str),
      s\<lparr>mem := (\<lambda>a. if brk s \<le> a \<and> a < brk s + length (c_str str)
                     then c_str str ! (a - brk s) else mem s a),
        brk := brk s + length (c_str str)\<rparr>)"

subsection \<open>The exported functions\<close>

definition wasm_alloc :: "state \<Rightarrow> size_t \<Rightarrow> addr \<times> state" where
  "wasm_alloc s sz = malloc s sz"

definition wasm_dealloc :: "state \<Rightarrow> addr \<Rightarrow> fault + state" where
  "wasm_dealloc s ptr = free s ptr"

definition wasm_init :: "state \<Rightarrow> state" where
  "wasm_init s =
     (if g_formatter s = None then s\<lparr>g_formatter := Some new_ClangFormat\<rparr> else s)"

definition wasm_set_style :: "state \<Rightarrow> addr \<Rightarrow> size_t \<Rightarrow> fault + (int32 \<times> state)" where
  "wasm_set_style s style style_len =
     (case g_formatter s of
        None \<Rightarrow> Inr (- 1, s)
      | Some f \<Rightarrow>
          (case std_string s style style_len of
             Inl e \<Rightarrow> Inl e
           | Inr str \<Rightarrow> Inr (0, s\<lparr>g_formatter := Some (with_style f str)\<rparr>)))"

definition wasm_set_fallback_style ::
  "state \<Rightarrow> addr \<Rightarrow> size_t \<Rightarrow> fault + (int32 \<times> state)" where
  "wasm_set_fallback_style s style style_len =
     (case g_formatter s of
        None \<Rightarrow> Inr (- 1, s)
      | Some f \<Rightarrow>
          (case std_string s style style_len of
             Inl e \<Rightarrow> Inl e
           | Inr str \<Rightarrow> Inr (0, s\<lparr>g_formatter := Some (with_fallback_style f str)\<rparr>)))"

text \<open>
  The same two functions in \<^verbatim>\<open>wasi_binding.cc\<close>, where the length is an \<^verbatim>\<open>int\<close> that the
  constructor receives converted to \<^verbatim>\<open>size_t\<close>.
\<close>

definition wasi_wasm_set_style ::
  "state \<Rightarrow> addr \<Rightarrow> int32 \<Rightarrow> fault + (int32 \<times> state)" where
  "wasi_wasm_set_style s style style_len =
     (case g_formatter s of
        None \<Rightarrow> Inr (- 1, s)
      | Some f \<Rightarrow>
          (case std_string s style (size_t_of_int style_len) of
             Inl e \<Rightarrow> Inl e
           | Inr str \<Rightarrow> Inr (0, s\<lparr>g_formatter := Some (with_style f str)\<rparr>)))"

definition wasi_wasm_set_fallback_style ::
  "state \<Rightarrow> addr \<Rightarrow> int32 \<Rightarrow> fault + (int32 \<times> state)" where
  "wasi_wasm_set_fallback_style s style style_len =
     (case g_formatter s of
        None \<Rightarrow> Inr (- 1, s)
      | Some f \<Rightarrow>
          (case std_string s style (size_t_of_int style_len) of
             Inl e \<Rightarrow> Inl e
           | Inr str \<Rightarrow> Inr (0, s\<lparr>g_formatter := Some (with_fallback_style f str)\<rparr>)))"

text \<open>
  The parts of \<^verbatim>\<open>wasm_format\<close>, which are the same text in both files. First the early
  return when \<^verbatim>\<open>g_formatter == nullptr\<close>: the three fields are overwritten, nothing is
  freed.
\<close>

definition format_uninitialized :: "state \<Rightarrow> state" where
  "format_uninitialized s =
     s\<lparr>g_last_result := \<lparr>status = 1, content_ptr = nullptr, content_len = 0\<rparr>\<rparr>"

text \<open>\<^verbatim>\<open>if (g_last_result.content_ptr != nullptr) { free(...); ... = nullptr; }\<close>\<close>

definition free_previous :: "state \<Rightarrow> fault + state" where
  "free_previous s =
     (if content_ptr (g_last_result s) \<noteq> nullptr
      then (case free s (content_ptr (g_last_result s)) of
              Inl e \<Rightarrow> Inl e
            | Inr s1 \<Rightarrow> Inr (s1\<lparr>g_last_result := (g_last_result s1)\<lparr>content_ptr := nullptr\<rparr>\<rparr>))
      else Inr s)"

text \<open>The \<^verbatim>\<open>switch\<close> on \<^verbatim>\<open>result.status\<close>.\<close>

definition status_code :: "ResultStatus \<Rightarrow> int32" where
  "status_code st = (case st of Success \<Rightarrow> 0 | Error \<Rightarrow> 1 | Unchanged \<Rightarrow> 2)"

text \<open>The \<^verbatim>\<open>if (!result.content.empty())\<close> with its two branches.\<close>

definition store_content :: "state \<Rightarrow> bytes \<Rightarrow> state" where
  "store_content s str =
     (if str \<noteq> []
      then (let s1 = s\<lparr>g_last_result :=
                        (g_last_result s)\<lparr>content_len := int32_of_size_t (string_size str)\<rparr>\<rparr>;
                (p, s2) = malloc s1 (string_size str);
                s3 = s2\<lparr>g_last_result := (g_last_result s2)\<lparr>content_ptr := p\<rparr>\<rparr>
            in memcpy s3 (content_ptr (g_last_result s3)) (c_str str) (string_size str))
      else s\<lparr>g_last_result := (g_last_result s)\<lparr>content_ptr := nullptr, content_len := 0\<rparr>\<rparr>)"

text \<open>
  The path with the handle present. The strings \<^verbatim>\<open>code_str\<close> and \<^verbatim>\<open>filename_str\<close> are the
  bytes of the two ranges, which the precondition of the call makes valid pointer and
  length pairs; they are read after the release of the previous buffer, as in the source.
\<close>

definition format_initialized ::
  "engine \<Rightarrow> ClangFormat \<Rightarrow> state \<Rightarrow> addr \<Rightarrow> size_t \<Rightarrow> addr \<Rightarrow> size_t \<Rightarrow> fault + state" where
  "format_initialized eng f s code code_len filename filename_len =
     (case free_previous s of
        Inl e \<Rightarrow> Inl e
      | Inr s1 \<Rightarrow>
          (let code_str = string_of_range s1 code code_len;
               filename_str = string_of_range s1 filename filename_len;
               result = eng f code_str filename_str;
               s2 = s1\<lparr>g_last_result :=
                        (g_last_result s1)\<lparr>status := status_code (result_status result)\<rparr>\<rparr>
           in Inr (store_content s2 (content result))))"

text \<open>
  \<^verbatim>\<open>wasm_format\<close> of \<^verbatim>\<open>part_000\<close> returns \<^verbatim>\<open>&g_last_result\<close>; the model returns the record
  that the pointer denotes when the call returns.
\<close>

definition wasm_format ::
  "engine \<Rightarrow> state \<Rightarrow> addr \<Rightarrow> size_t \<Rightarrow> addr \<Rightarrow> size_t \<Rightarrow> fault + (WasmResult \<times> state)" where
  "wasm_format eng s code code_len filename filename_len =
     (case g_formatter s of
        None \<Rightarrow> (let s1 = format_uninitialized s in Inr (g_last_result s1, s1))
      | Some f \<Rightarrow>
          (case format_initialized eng f s code code_len filename filename_len of
             Inl e \<Rightarrow> Inl e
           | Inr s1 \<Rightarrow> Inr (g_last_result s1, s1)))"

text \<open>\<^verbatim>\<open>wasm_format\<close> of \<^verbatim>\<open>wasi_binding.cc\<close>: \<^verbatim>\<open>int\<close> lengths, the status is returned.\<close>

definition wasi_wasm_format ::
  "engine \<Rightarrow> state \<Rightarrow> addr \<Rightarrow> int32 \<Rightarrow> addr \<Rightarrow> int32 \<Rightarrow> fault + (int32 \<times> state)" where
  "wasi_wasm_format eng s code code_len filename filename_len =
     (case g_formatter s of
        None \<Rightarrow> (let s1 = format_uninitialized s in Inr (1, s1))
      | Some f \<Rightarrow>
          (case format_initialized eng f s code (size_t_of_int code_len)
                  filename (size_t_of_int filename_len) of
             Inl e \<Rightarrow> Inl e
           | Inr s1 \<Rightarrow> Inr (status (g_last_result s1), s1)))"

definition wasm_get_result_status :: "state \<Rightarrow> int32" where
  "wasm_get_result_status s = status (g_last_result s)"

definition wasm_get_result_ptr :: "state \<Rightarrow> addr" where
  "wasm_get_result_ptr s = content_ptr (g_last_result s)"

definition wasm_get_result_len :: "state \<Rightarrow> int32" where
  "wasm_get_result_len s = content_len (g_last_result s)"

definition wasm_free_result :: "state \<Rightarrow> fault + state" where
  "wasm_free_result s =
     (if content_ptr (g_last_result s) \<noteq> nullptr
      then (case free s (content_ptr (g_last_result s)) of
              Inl e \<Rightarrow> Inl e
            | Inr s1 \<Rightarrow>
                Inr (s1\<lparr>g_last_result :=
                          (g_last_result s1)\<lparr>content_ptr := nullptr, content_len := 0\<rparr>\<rparr>))
      else Inr s)"

text \<open>
  \<^verbatim>\<open>wasm_version\<close> and \<^verbatim>\<open>wasm_version_len\<close> each have a static \<^verbatim>\<open>ver\<close> of their own,
  initialised from \<^verbatim>\<open>ClangFormat::version()\<close> (the parameter \<open>ver\<close>) when the function
  is called first.
\<close>

definition wasm_version :: "bytes \<Rightarrow> state \<Rightarrow> addr \<times> state" where
  "wasm_version ver s =
     (case version_ver s of
        Some (p, str) \<Rightarrow> (p, s)
      | None \<Rightarrow>
          (let (v, s1) = static_string s ver
           in (fst v, s1\<lparr>version_ver := Some v\<rparr>)))"

definition wasm_version_len :: "bytes \<Rightarrow> state \<Rightarrow> int32 \<times> state" where
  "wasm_version_len ver s =
     (case version_len_ver s of
        Some (p, str) \<Rightarrow> (int32_of_size_t (string_size str), s)
      | None \<Rightarrow>
          (let (v, s1) = static_string s ver
           in (int32_of_size_t (string_size (snd v)), s1\<lparr>version_len_ver := Some v\<rparr>)))"

subsection \<open>The calls across the boundary\<close>

text \<open>
  The two files: \<^verbatim>\<open>part_000\<close> returns the record from \<^verbatim>\<open>wasm_format\<close> and exports an
  accessor for each of its three fields; \<^verbatim>\<open>wasi_binding.cc\<close> returns the status and exports
  accessors for the pointer and the length only.
\<close>

datatype variant = InlineRecord | Accessor

text \<open>
  One call of the guest environment. Lengths cross the boundary as 32-bit values in both
  files. \<open>HostStore\<close> is the guest writing bytes into the linear memory between calls
  (filling an input buffer); it is no function of the module.
\<close>

datatype call =
    Alloc size_t
  | Dealloc addr
  | Init
  | SetStyle addr "32 word"
  | SetFallbackStyle addr "32 word"
  | Format addr "32 word" addr "32 word"
  | GetResultStatus
  | GetResultPtr
  | GetResultLen
  | FreeResult
  | Version
  | VersionLen
  | HostStore addr bytes

datatype retval = RVoid | RInt int32 | RPtr addr | RResult WasmResult

definition host_store :: "state \<Rightarrow> addr \<Rightarrow> bytes \<Rightarrow> state" where
  "host_store s p bs =
     s\<lparr>mem := (\<lambda>a. if p \<le> a \<and> a < p + length bs then bs ! (a - p) else mem s a)\<rparr>"

fun step :: "variant \<Rightarrow> engine \<Rightarrow> bytes \<Rightarrow> state \<Rightarrow> call \<Rightarrow> fault + (retval \<times> state)" where
  "step v eng ver s (Alloc n) = (let (p, s1) = wasm_alloc s n in Inr (RPtr p, s1))"
| "step v eng ver s (Dealloc p) =
     (case wasm_dealloc s p of Inl e \<Rightarrow> Inl e | Inr s1 \<Rightarrow> Inr (RVoid, s1))"
| "step v eng ver s Init = Inr (RVoid, wasm_init s)"
| "step v eng ver s (SetStyle p n) =
     (case (case v of InlineRecord \<Rightarrow> wasm_set_style s p n
                    | Accessor \<Rightarrow> wasi_wasm_set_style s p n) of
        Inl e \<Rightarrow> Inl e | Inr (r, s1) \<Rightarrow> Inr (RInt r, s1))"
| "step v eng ver s (SetFallbackStyle p n) =
     (case (case v of InlineRecord \<Rightarrow> wasm_set_fallback_style s p n
                    | Accessor \<Rightarrow> wasi_wasm_set_fallback_style s p n) of
        Inl e \<Rightarrow> Inl e | Inr (r, s1) \<Rightarrow> Inr (RInt r, s1))"
| "step v eng ver s (Format c cl f fl) =
     (case v of
        InlineRecord \<Rightarrow>
          (case wasm_format eng s c cl f fl of
             Inl e \<Rightarrow> Inl e | Inr (r, s1) \<Rightarrow> Inr (RResult r, s1))
      | Accessor \<Rightarrow>
          (case wasi_wasm_format eng s c cl f fl of
             Inl e \<Rightarrow> Inl e | Inr (r, s1) \<Rightarrow> Inr (RInt r, s1)))"
| "step v eng ver s GetResultStatus =
     (case v of InlineRecord \<Rightarrow> Inr (RInt (wasm_get_result_status s), s)
              | Accessor \<Rightarrow> Inl NoSuchExport)"
| "step v eng ver s GetResultPtr = Inr (RPtr (wasm_get_result_ptr s), s)"
| "step v eng ver s GetResultLen = Inr (RInt (wasm_get_result_len s), s)"
| "step v eng ver s FreeResult =
     (case wasm_free_result s of Inl e \<Rightarrow> Inl e | Inr s1 \<Rightarrow> Inr (RVoid, s1))"
| "step v eng ver s Version = (let (p, s1) = wasm_version ver s in Inr (RPtr p, s1))"
| "step v eng ver s VersionLen = (let (n, s1) = wasm_version_len ver s in Inr (RInt n, s1))"
| "step v eng ver s (HostStore p bs) = Inr (RVoid, host_store s p bs)"

text \<open>A sequence of calls, with the value each call returned; it stops at the first fault.\<close>

fun run ::
  "variant \<Rightarrow> engine \<Rightarrow> bytes \<Rightarrow> state \<Rightarrow> call list \<Rightarrow> fault + (retval list \<times> state)" where
  "run v eng ver s [] = Inr ([], s)"
| "run v eng ver s (c # cs) =
     (case step v eng ver s c of
        Inl e \<Rightarrow> Inl e
      | Inr (r, s1) \<Rightarrow>
          (case run v eng ver s1 cs of
             Inl e \<Rightarrow> Inl e
           | Inr (rs, s2) \<Rightarrow> Inr (r # rs, s2)))"

inductive reachable :: "variant \<Rightarrow> engine \<Rightarrow> bytes \<Rightarrow> state \<Rightarrow> bool"
  for v :: variant and eng :: engine and ver :: bytes where
  reachable_initial: "reachable v eng ver initial_state"
| reachable_step:
    "reachable v eng ver s \<Longrightarrow> step v eng ver s c = Inr (r, s') \<Longrightarrow> reachable v eng ver s'"

fun is_format :: "call \<Rightarrow> bool" where
  "is_format (Format c cl f fl) = True"
| "is_format _ = False"

subsection \<open>Predicates on states and traces\<close>

text \<open>
  The allocator's own invariant: the next unused address is not null and above every live
  block, and no live block is at the null address.
\<close>

definition heap_ok :: "state \<Rightarrow> bool" where
  "heap_ok s \<longleftrightarrow> 0 < brk s \<and> (\<forall>b \<in> set (live s). 0 < fst b \<and> fst b < brk s)"

text \<open>The \<^verbatim>\<open>Result\<close> that the engine returns in a call of \<^verbatim>\<open>wasm_format\<close>.\<close>

definition engine_result ::
  "engine \<Rightarrow> ClangFormat \<Rightarrow> state \<Rightarrow> addr \<Rightarrow> size_t \<Rightarrow> addr \<Rightarrow> size_t \<Rightarrow> Result" where
  "engine_result eng f s c cl fn fl = eng f (string_of_range s c cl) (string_of_range s fn fl)"

text \<open>The pointer in the Result Slot is null or a live block.\<close>

definition slot_owned :: "state \<Rightarrow> bool" where
  "slot_owned s \<longleftrightarrow>
     content_ptr (g_last_result s) = nullptr
     \<or> content_ptr (g_last_result s) \<in> fst ` set (live s)"

text \<open>
  The caller keeps the ownership rule for a call: it does not pass the pointer of the Result
  Slot to \<^verbatim>\<open>wasm_dealloc\<close>.
\<close>

fun respects_slot :: "state \<Rightarrow> call \<Rightarrow> bool" where
  "respects_slot s (Dealloc p) = (p = nullptr \<or> p \<noteq> content_ptr (g_last_result s))"
| "respects_slot s _ = True"

text \<open>
  The invariant of the Result Slot: a buffer is held only with a positive length, and
  length zero goes with the null pointer (in both directions).
\<close>

definition slot_inv :: "state \<Rightarrow> bool" where
  "slot_inv s \<longleftrightarrow>
     (content_ptr (g_last_result s) \<noteq> nullptr \<longrightarrow> 0 < sint (content_len (g_last_result s)))
     \<and> (content_len (g_last_result s) = 0) = (content_ptr (g_last_result s) = nullptr)"

text \<open>The live blocks other than the one the Result Slot points to.\<close>

definition other_blocks :: "state \<Rightarrow> (addr \<times> nat) set" where
  "other_blocks s = {b \<in> set (live s). fst b \<noteq> content_ptr (g_last_result s)}"

text \<open>
  The discipline of a single slot, checked on a trace: \<open>held\<close> is the buffer in the slot
  (null for none). A \<^verbatim>\<open>free\<close> must free the held buffer and empties the slot; a
  \<^verbatim>\<open>malloc\<close> must find the slot empty and fills it. The result is the buffer held at the
  end, or \<open>None\<close> when the trace breaks the discipline (a buffer overwritten without a
  \<^verbatim>\<open>free\<close>, a \<^verbatim>\<open>free\<close> of anything but the held buffer).
\<close>

fun slot_discipline :: "addr \<Rightarrow> event list \<Rightarrow> addr option" where
  "slot_discipline held [] = Some held"
| "slot_discipline held (EvFree p # es) =
     (if held \<noteq> nullptr \<and> p = held then slot_discipline nullptr es else None)"
| "slot_discipline held (EvMalloc p n # es) =
     (if held = nullptr \<and> p \<noteq> nullptr then slot_discipline p es else None)"

text \<open>
  The output of the engine fits the \<^verbatim>\<open>int32_t\<close> field \<^verbatim>\<open>content_len\<close>: in the 4 GiB of a
  wasm32 memory a string of \<open>2 ^ 31\<close> bytes and its copy do not both fit.
\<close>

definition engine_bounded :: "engine \<Rightarrow> bool" where
  "engine_bounded eng \<longleftrightarrow> (\<forall>f code filename. length (content (eng f code filename)) < 2 ^ 31)"

text \<open>Two engines to run the model on: one echoes the code, one always fails with a message.\<close>

definition echo_engine :: engine where
  "echo_engine f code filename = \<lparr>result_status = Success, content = take 8 code\<rparr>"

definition failing_engine :: engine where
  "failing_engine f code filename = \<lparr>result_status = Error, content = [101, 114, 114]\<rparr>"

subsection \<open>Conversions and the two files\<close>

lemma size_t_of_int_id [simp]: "size_t_of_int i = i"
  by (simp add: size_t_of_int_def)

lemma int32_of_size_t_id [simp]: "int32_of_size_t n = n"
  by (simp add: int32_of_size_t_def)








lemma wasi_set_style_eq: "wasi_wasm_set_style s p n = wasm_set_style s p n"
  by (simp add: wasi_wasm_set_style_def wasm_set_style_def split: option.splits)

lemma wasi_set_fallback_style_eq: "wasi_wasm_set_fallback_style s p n = wasm_set_fallback_style s p n"
  by (simp add: wasi_wasm_set_fallback_style_def wasm_set_fallback_style_def split: option.splits)

lemma wasm_set_style_cases:
  assumes "wasm_set_style s p n = Inr (r, s')"
  shows "s' = s \<or> (\<exists>f str. g_formatter s = Some f \<and> s' = s\<lparr>g_formatter := Some (with_style f str)\<rparr>)"
  using assms by (auto simp: wasm_set_style_def split: option.splits sum.splits)

lemma wasm_set_fallback_style_cases:
  assumes "wasm_set_fallback_style s p n = Inr (r, s')"
  shows "s' = s
     \<or> (\<exists>f str. g_formatter s = Some f \<and> s' = s\<lparr>g_formatter := Some (with_fallback_style f str)\<rparr>)"
  using assms by (auto simp: wasm_set_fallback_style_def split: option.splits sum.splits)

lemma wasi_format_eq:
  "wasi_wasm_format eng s c cl f fl =
     map_sum id (\<lambda>(r, s'). (status r, s')) (wasm_format eng s c cl f fl)"
  by (simp add: wasi_wasm_format_def wasm_format_def format_uninitialized_def Let_def
      split: option.splits sum.splits)

lemma wasm_format_returns_slot:
  "wasm_format eng s c cl f fl = Inr (r, s') \<Longrightarrow> r = g_last_result s'"
  by (auto simp: wasm_format_def Let_def split: option.splits sum.splits)

subsection \<open>Facts about \<^verbatim>\<open>wasm_format\<close>\<close>

lemma free_previous_cases:
  "free_previous s = Inr s1 \<Longrightarrow>
     (content_ptr (g_last_result s) = nullptr \<and> s1 = s)
     \<or> (content_ptr (g_last_result s) \<noteq> nullptr
        \<and> content_ptr (g_last_result s) \<in> fst ` set (live s)
        \<and> s1 = s\<lparr>live := filter (\<lambda>b. fst b \<noteq> content_ptr (g_last_result s)) (live s),
                  events := events s @ [EvFree (content_ptr (g_last_result s))],
                  g_last_result := (g_last_result s)\<lparr>content_ptr := nullptr\<rparr>\<rparr>)"
  by (auto simp: free_previous_def free_def split: if_splits sum.splits)

lemma free_previous_owned:
  "slot_owned s \<Longrightarrow> \<exists>s1. free_previous s = Inr s1"
  by (auto simp: free_previous_def free_def slot_owned_def)

lemma store_content_empty:
  "store_content s [] = s\<lparr>g_last_result := (g_last_result s)\<lparr>content_ptr := nullptr, content_len := 0\<rparr>\<rparr>"
  by (simp add: store_content_def)

lemma store_content_nonempty:
  "str \<noteq> [] \<Longrightarrow> store_content s str =
     s\<lparr>mem := (\<lambda>a. if brk s \<le> a \<and> a < brk s + unat (string_size str)
                    then c_str str ! (a - brk s) else mem s a),
       live := (brk s, unat (string_size str)) # live s,
       brk := brk s + max (unat (string_size str)) 1,
       events := events s @ [EvMalloc (brk s) (unat (string_size str))],
       g_last_result := (g_last_result s)\<lparr>content_ptr := brk s, content_len := string_size str\<rparr>\<rparr>"
  by (simp add: store_content_def malloc_def memcpy_def Let_def cong: if_cong)

lemma string_of_range_mem: "mem s1 = mem s \<Longrightarrow> string_of_range s1 p n = string_of_range s p n"
  by (simp add: string_of_range_def)

lemma free_previous_mem: "free_previous s = Inr s1 \<Longrightarrow> mem s1 = mem s"
  by (auto dest: free_previous_cases)

lemma format_initialized_Inr:
  assumes "format_initialized eng f s c cl fn fl = Inr s'"
  shows "\<exists>s1. free_previous s = Inr s1
     \<and> s' = store_content
           (s1\<lparr>g_last_result := (g_last_result s1)
               \<lparr>status := status_code (result_status (engine_result eng f s c cl fn fl))\<rparr>\<rparr>)
           (content (engine_result eng f s c cl fn fl))"
proof (cases "free_previous s")
  case (Inl e)
  with assms show ?thesis by (simp add: format_initialized_def)
next
  case (Inr s1)
  then have "mem s1 = mem s" by (rule free_previous_mem)
  then have "string_of_range s1 c cl = string_of_range s c cl"
    "string_of_range s1 fn fl = string_of_range s fn fl"
    by (rule string_of_range_mem)+
  with Inr have "format_initialized eng f s c cl fn fl = Inr (store_content
           (s1\<lparr>g_last_result := (g_last_result s1)
               \<lparr>status := status_code (result_status (engine_result eng f s c cl fn fl))\<rparr>\<rparr>)
           (content (engine_result eng f s c cl fn fl)))"
    by (simp add: format_initialized_def Let_def engine_result_def)
  with assms Inr show ?thesis by simp
qed

lemma format_initialized_succeeds:
  assumes "free_previous s = Inr s1"
  shows "format_initialized eng f s c cl fn fl = Inr (store_content
           (s1\<lparr>g_last_result := (g_last_result s1)
               \<lparr>status := status_code (result_status (engine_result eng f s c cl fn fl))\<rparr>\<rparr>)
           (content (engine_result eng f s c cl fn fl)))"
proof -
  from assms have "mem s1 = mem s" by (rule free_previous_mem)
  then have "string_of_range s1 c cl = string_of_range s c cl"
    "string_of_range s1 fn fl = string_of_range s fn fl"
    by (rule string_of_range_mem)+
  with assms show ?thesis
    by (simp add: format_initialized_def Let_def engine_result_def)
qed

lemma step_format_uninit:
  "g_formatter s = None \<Longrightarrow>
   step v eng ver s (Format c cl fn fl) =
     Inr (case v of InlineRecord \<Rightarrow> RResult \<lparr>status = 1, content_ptr = nullptr, content_len = 0\<rparr>
                  | Accessor \<Rightarrow> RInt 1,
          format_uninitialized s)"
  by (cases v) (simp_all add: wasm_format_def wasi_wasm_format_def format_uninitialized_def)

lemma step_format_init:
  "g_formatter s = Some f \<Longrightarrow>
   step v eng ver s (Format c cl fn fl) =
     (case format_initialized eng f s c cl fn fl of
        Inl e \<Rightarrow> Inl e
      | Inr s1 \<Rightarrow> Inr (case v of InlineRecord \<Rightarrow> RResult (g_last_result s1)
                              | Accessor \<Rightarrow> RInt (status (g_last_result s1)), s1))"
  by (cases v) (simp_all add: wasm_format_def wasi_wasm_format_def split: sum.splits)

lemma format_initialized_fields:
  assumes "format_initialized eng f s c cl fn fl = Inr s'"
  defines "p \<equiv> content_ptr (g_last_result s)"
    and "res \<equiv> engine_result eng f s c cl fn fl"
  shows "g_formatter s' = g_formatter s"
    and "version_ver s' = version_ver s"
    and "version_len_ver s' = version_len_ver s"
    and "p = nullptr \<or> p \<in> fst ` set (live s)"
    and "events s' = events s @ (if p \<noteq> nullptr then [EvFree p] else [])
           @ (if content res \<noteq> [] then [EvMalloc (brk s) (unat (string_size (content res)))] else [])"
    and "live s' = (if content res \<noteq> [] then [(brk s, unat (string_size (content res)))] else [])
           @ (if p \<noteq> nullptr then filter (\<lambda>b. fst b \<noteq> p) (live s) else live s)"
    and "brk s' = brk s + (if content res \<noteq> [] then max (unat (string_size (content res))) 1 else 0)"
    and "g_last_result s' =
           \<lparr>status = status_code (result_status res),
            content_ptr = (if content res \<noteq> [] then brk s else nullptr),
            content_len = (if content res \<noteq> [] then string_size (content res) else 0)\<rparr>"
    and "mem s' = (if content res \<noteq> []
           then (\<lambda>a. if brk s \<le> a \<and> a < brk s + unat (string_size (content res))
                     then c_str (content res) ! (a - brk s) else mem s a)
           else mem s)"
proof -
  from assms(1) obtain s1 where s1: "free_previous s = Inr s1"
    and s': "s' = store_content
           (s1\<lparr>g_last_result := (g_last_result s1)\<lparr>status := status_code (result_status res)\<rparr>\<rparr>)
           (content res)"
    unfolding res_def by (blast dest: format_initialized_Inr)
  note fp = free_previous_cases [OF s1, folded p_def]
  show "p = nullptr \<or> p \<in> fst ` set (live s)" using fp by blast
  show "g_formatter s' = g_formatter s" using fp
    by (cases "content res = []") (auto simp: s' store_content_empty store_content_nonempty)
  show "version_ver s' = version_ver s" using fp
    by (cases "content res = []") (auto simp: s' store_content_empty store_content_nonempty)
  show "version_len_ver s' = version_len_ver s" using fp
    by (cases "content res = []") (auto simp: s' store_content_empty store_content_nonempty)
  show "events s' = events s @ (if p \<noteq> nullptr then [EvFree p] else [])
           @ (if content res \<noteq> [] then [EvMalloc (brk s) (unat (string_size (content res)))] else [])"
    using fp
    by (cases "content res = []") (auto simp: s' store_content_empty store_content_nonempty)
  show "live s' = (if content res \<noteq> [] then [(brk s, unat (string_size (content res)))] else [])
           @ (if p \<noteq> nullptr then filter (\<lambda>b. fst b \<noteq> p) (live s) else live s)"
    using fp
    by (cases "content res = []") (auto simp: s' store_content_empty store_content_nonempty)
  show "brk s' = brk s + (if content res \<noteq> [] then max (unat (string_size (content res))) 1 else 0)"
    using fp
    by (cases "content res = []") (auto simp: s' store_content_empty store_content_nonempty)
  show "g_last_result s' =
           \<lparr>status = status_code (result_status res),
            content_ptr = (if content res \<noteq> [] then brk s else nullptr),
            content_len = (if content res \<noteq> [] then string_size (content res) else 0)\<rparr>"
    using fp
    by (cases "content res = []") (auto simp: s' store_content_empty store_content_nonempty)
  show "mem s' = (if content res \<noteq> []
           then (\<lambda>a. if brk s \<le> a \<and> a < brk s + unat (string_size (content res))
                     then c_str (content res) ! (a - brk s) else mem s a)
           else mem s)"
    using fp
    by (cases "content res = []") (auto simp: s' store_content_empty store_content_nonempty)
qed

lemma format_initialized_owned:
  assumes "slot_owned s"
  shows "\<exists>s'. format_initialized eng f s c cl fn fl = Inr s'"
proof -
  from assms obtain s1 where "free_previous s = Inr s1"
    by (blast dest: free_previous_owned)
  then show ?thesis by (blast dest: format_initialized_succeeds)
qed

lemma slot_discipline_append:
  "slot_discipline h (tr1 @ tr2) =
     (case slot_discipline h tr1 of None \<Rightarrow> None | Some h' \<Rightarrow> slot_discipline h' tr2)"
proof (induction tr1 arbitrary: h)
  case Nil
  show ?case by simp
next
  case (Cons e tr1)
  then show ?case by (cases e) simp_all
qed

lemma format_initialized_step:
  assumes ok: "heap_ok s" and own: "slot_owned s"
  shows "\<exists>s'. format_initialized eng f s c cl fn fl = Inr s'
      \<and> g_formatter s' = g_formatter s \<and> heap_ok s' \<and> slot_owned s'
      \<and> (\<exists>tr. events s' = events s @ tr
           \<and> slot_discipline (content_ptr (g_last_result s)) tr
               = Some (content_ptr (g_last_result s')))
      \<and> other_blocks s' = other_blocks s"
proof -
  from own obtain s' where s': "format_initialized eng f s c cl fn fl = Inr s'"
    by (blast dest: format_initialized_owned)
  note flds = format_initialized_fields [OF s']
  let ?p = "content_ptr (g_last_result s)"
  let ?out = "content (engine_result eng f s c cl fn fl)"
  have brk: "0 < brk s" and lv: "\<And>b. b \<in> set (live s) \<Longrightarrow> 0 < fst b \<and> fst b < brk s"
    using ok by (auto simp: heap_ok_def)
  have 1: "heap_ok s'"
    using brk lv by (auto simp: heap_ok_def flds(6,7) trans_less_add1 split: if_splits)
  have 2: "slot_owned s'"
    by (simp add: slot_owned_def flds(6,8))
  have 3: "slot_discipline ?p
      ((if ?p \<noteq> nullptr then [EvFree ?p] else [])
         @ (if ?out \<noteq> [] then [EvMalloc (brk s) (unat (string_size ?out))] else []))
      = Some (content_ptr (g_last_result s'))"
    using brk by (simp add: flds(8))
  have fresh: "\<And>n. (brk s, n) \<notin> set (live s)"
    using lv by force
  have pos: "\<And>a n. (a, n) \<in> set (live s) \<Longrightarrow> a \<noteq> nullptr"
    using lv by force
  have 4: "other_blocks s' = other_blocks s"
    using fresh pos brk by (auto simp: other_blocks_def flds(6,8) split: if_splits)
  from s' flds(1) 1 2 3 4 flds(5) show ?thesis by blast
qed

subsection \<open>Sequences of \<^verbatim>\<open>wasm_format\<close> calls\<close>

text \<open>The definitions that a run on concrete values unfolds.\<close>

lemmas exec_defs = initial_state_def wasm_init_def new_ClangFormat_def wasm_format_def
  wasi_wasm_format_def format_initialized_def format_uninitialized_def free_previous_def
  free_def store_content_def malloc_def memcpy_def string_of_range_def echo_engine_def
  failing_engine_def status_code_def string_size_def c_str_def size_t_of_int_def
  int32_of_size_t_def Let_def wasm_free_result_def wasm_get_result_len_def
  wasm_get_result_ptr_def wasm_get_result_status_def heap_ok_def slot_owned_def slot_inv_def
  other_blocks_def engine_result_def wasm_set_style_def wasm_set_fallback_style_def
  wasi_wasm_set_style_def wasi_wasm_set_fallback_style_def with_style_def
  with_fallback_style_def wasm_alloc_def wasm_dealloc_def host_store_def static_string_def
  wasm_version_def wasm_version_len_def std_string_def string_max_size_def

lemma format_uninitialized_fields [simp]:
  "events (format_uninitialized s) = events s"
  "live (format_uninitialized s) = live s"
  "brk (format_uninitialized s) = brk s"
  "mem (format_uninitialized s) = mem s"
  "g_formatter (format_uninitialized s) = g_formatter s"
  "version_ver (format_uninitialized s) = version_ver s"
  "version_len_ver (format_uninitialized s) = version_len_ver s"
  "g_last_result (format_uninitialized s) = \<lparr>status = 1, content_ptr = nullptr, content_len = 0\<rparr>"
  by (simp_all add: format_uninitialized_def)

lemma run_formats_initialized:
  assumes "\<forall>c \<in> set cs. is_format c"
    and "g_formatter s = Some f" and "heap_ok s" and "slot_owned s"
  shows "\<exists>rs s'. run v eng ver s cs = Inr (rs, s')
      \<and> g_formatter s' = Some f \<and> heap_ok s' \<and> slot_owned s'
      \<and> (\<exists>tr. events s' = events s @ tr
           \<and> slot_discipline (content_ptr (g_last_result s)) tr
               = Some (content_ptr (g_last_result s')))
      \<and> other_blocks s' = other_blocks s"
  using assms
proof (induction cs arbitrary: s)
  case Nil
  then show ?case by simp
next
  case (Cons c cs)
  from Cons.prems(1) obtain a al fn fl where c: "c = Format a al fn fl"
    by (cases c) auto
  from format_initialized_step [OF Cons.prems(3,4), of eng f a al fn fl]
  obtain s1 tr1 where s1: "format_initialized eng f s a al fn fl = Inr s1"
    and f1: "g_formatter s1 = g_formatter s" and ok1: "heap_ok s1" and own1: "slot_owned s1"
    and ev1: "events s1 = events s @ tr1"
    and d1: "slot_discipline (content_ptr (g_last_result s)) tr1
               = Some (content_ptr (g_last_result s1))"
    and ob1: "other_blocks s1 = other_blocks s"
    by blast
  from Cons.prems(1) have fm: "\<forall>c \<in> set cs. is_format c" by simp
  from f1 Cons.prems(2) have f1': "g_formatter s1 = Some f" by simp
  from Cons.IH [OF fm f1' ok1 own1]
  obtain rs s2 tr2 where r2: "run v eng ver s1 cs = Inr (rs, s2)"
    and f2: "g_formatter s2 = Some f" and ok2: "heap_ok s2" and own2: "slot_owned s2"
    and ev2: "events s2 = events s1 @ tr2"
    and d2: "slot_discipline (content_ptr (g_last_result s1)) tr2
               = Some (content_ptr (g_last_result s2))"
    and ob2: "other_blocks s2 = other_blocks s1"
    by blast
  obtain r where st: "step v eng ver s c = Inr (r, s1)"
    using step_format_init [OF Cons.prems(2), of v eng ver a al fn fl] s1 c by simp
  have run: "run v eng ver s (c # cs) = Inr (r # rs, s2)"
    using st r2 by simp
  have ev: "events s2 = events s @ (tr1 @ tr2)"
    using ev1 ev2 by simp
  have d: "slot_discipline (content_ptr (g_last_result s)) (tr1 @ tr2)
             = Some (content_ptr (g_last_result s2))"
    using d1 d2 by (simp add: slot_discipline_append)
  from run f2 ok2 own2 ev d ob1 ob2 show ?case
    by (metis (no_types))
qed

lemma run_formats_uninitialized:
  assumes "\<forall>c \<in> set cs. is_format c" and "g_formatter s = None"
  shows "\<exists>rs s'. run v eng ver s cs = Inr (rs, s')
      \<and> g_formatter s' = None \<and> events s' = events s \<and> live s' = live s"
  using assms
proof (induction cs arbitrary: s)
  case Nil
  then show ?case by simp
next
  case (Cons c cs)
  from Cons.prems(1) obtain a al fn fl where c: "c = Format a al fn fl"
    by (cases c) auto
  obtain r where st: "step v eng ver s c = Inr (r, format_uninitialized s)"
    using step_format_uninit [OF Cons.prems(2), of v eng ver a al fn fl] c by simp
  from Cons.prems(1) have fm: "\<forall>c \<in> set cs. is_format c" by simp
  have "g_formatter (format_uninitialized s) = None"
    using Cons.prems(2) by simp
  from Cons.IH [OF fm this]
  obtain rs s2 where "run v eng ver (format_uninitialized s) cs = Inr (rs, s2)"
    and "g_formatter s2 = None" and "events s2 = events s" and "live s2 = live s"
    by auto
  with st show ?case by simp
qed

lemma step_format_init_Inr:
  assumes "g_formatter s = Some f"
    and "step v eng ver s (Format c cl fn fl) = Inr (r, s')"
  shows "format_initialized eng f s c cl fn fl = Inr s'"
  using assms(2) unfolding step_format_init [OF assms(1)]
  by (auto split: sum.splits)

lemma step_format_events:
  assumes "g_formatter s = Some f"
    and "step v eng ver s (Format c cl fn fl) = Inr (r, s')"
  shows "events s' = events s
           @ (if content_ptr (g_last_result s) \<noteq> nullptr
              then [EvFree (content_ptr (g_last_result s))] else [])
           @ (if content (engine_result eng f s c cl fn fl) \<noteq> []
              then [EvMalloc (content_ptr (g_last_result s'))
                      (unat (string_size (content (engine_result eng f s c cl fn fl))))]
              else [])"
proof -
  from assms have "format_initialized eng f s c cl fn fl = Inr s'"
    by (rule step_format_init_Inr)
  note flds = format_initialized_fields [OF this]
  show ?thesis by (simp add: flds(5,8))
qed

subsection \<open>The state after a call\<close>

lemma step_state:
  assumes "step v eng ver s c = Inr (r, s')"
  shows "case c of
      Alloc n \<Rightarrow> s' = snd (wasm_alloc s n)
    | Dealloc p \<Rightarrow> wasm_dealloc s p = Inr s'
    | Init \<Rightarrow> s' = wasm_init s
    | SetStyle p n \<Rightarrow>
        s' = s \<or> (\<exists>f str. g_formatter s = Some f \<and> s' = s\<lparr>g_formatter := Some (with_style f str)\<rparr>)
    | SetFallbackStyle p n \<Rightarrow>
        s' = s
        \<or> (\<exists>f str. g_formatter s = Some f
              \<and> s' = s\<lparr>g_formatter := Some (with_fallback_style f str)\<rparr>)
    | Format a al fn fl \<Rightarrow>
        (case g_formatter s of
           None \<Rightarrow> s' = format_uninitialized s
         | Some f \<Rightarrow> format_initialized eng f s a al fn fl = Inr s')
    | GetResultStatus \<Rightarrow> s' = s
    | GetResultPtr \<Rightarrow> s' = s
    | GetResultLen \<Rightarrow> s' = s
    | FreeResult \<Rightarrow> wasm_free_result s = Inr s'
    | Version \<Rightarrow> s' = snd (wasm_version ver s)
    | VersionLen \<Rightarrow> s' = snd (wasm_version_len ver s)
    | HostStore p bs \<Rightarrow> s' = host_store s p bs"
proof (cases c)
  case (Format a al fn fl)
  show ?thesis
  proof (cases "g_formatter s")
    case None
    with assms Format show ?thesis
      using step_format_uninit [OF None, of v eng ver a al fn fl] by simp
  next
    case (Some f)
    with assms Format show ?thesis
      using step_format_init_Inr [OF Some, of v eng ver a al fn fl r s'] by simp
  qed
next
  case (SetStyle p n)
  with assms obtain r' where "wasm_set_style s p n = Inr (r', s')"
    by (cases v) (auto simp: wasi_set_style_eq split: sum.splits)
  from wasm_set_style_cases [OF this] SetStyle show ?thesis by simp
next
  case (SetFallbackStyle p n)
  with assms obtain r' where "wasm_set_fallback_style s p n = Inr (r', s')"
    by (cases v) (auto simp: wasi_set_fallback_style_eq split: sum.splits)
  from wasm_set_fallback_style_cases [OF this] SetFallbackStyle show ?thesis by simp
next
  case GetResultStatus
  with assms show ?thesis by (cases v) auto
qed (use assms in \<open>auto split: prod.splits sum.splits\<close>)

text \<open>The effect of the other exported functions on the fields.\<close>

lemma wasm_free_result_cases:
  assumes "wasm_free_result s = Inr s'"
  shows "(content_ptr (g_last_result s) = nullptr \<and> s' = s)
     \<or> (content_ptr (g_last_result s) \<noteq> nullptr
        \<and> content_ptr (g_last_result s) \<in> fst ` set (live s)
        \<and> s' = s\<lparr>live := filter (\<lambda>b. fst b \<noteq> content_ptr (g_last_result s)) (live s),
                  events := events s @ [EvFree (content_ptr (g_last_result s))],
                  g_last_result := (g_last_result s)\<lparr>content_ptr := nullptr, content_len := 0\<rparr>\<rparr>)"
  using assms by (auto simp: wasm_free_result_def free_def split: if_splits sum.splits)

lemma wasm_dealloc_cases:
  assumes "wasm_dealloc s p = Inr s'"
  shows "(p = nullptr \<and> s' = s)
     \<or> (p \<noteq> nullptr \<and> p \<in> fst ` set (live s)
        \<and> s' = s\<lparr>live := filter (\<lambda>b. fst b \<noteq> p) (live s), events := events s @ [EvFree p]\<rparr>)"
  using assms by (auto simp: wasm_dealloc_def free_def split: if_splits)

lemma wasm_alloc_state:
  "snd (wasm_alloc s n) =
     s\<lparr>live := (brk s, unat n) # live s, brk := brk s + max (unat n) 1,
       events := events s @ [EvMalloc (brk s) (unat n)]\<rparr>"
  by (simp add: wasm_alloc_def malloc_def)

lemma wasm_version_state:
  "snd (wasm_version ver s) =
     (case version_ver s of
        Some v \<Rightarrow> s
      | None \<Rightarrow> (snd (static_string s ver))\<lparr>version_ver := Some (brk s, ver)\<rparr>)"
  by (simp add: wasm_version_def static_string_def split: option.splits)

lemma wasm_version_len_state:
  "snd (wasm_version_len ver s) =
     (case version_len_ver s of
        Some v \<Rightarrow> s
      | None \<Rightarrow> (snd (static_string s ver))\<lparr>version_len_ver := Some (brk s, ver)\<rparr>)"
  by (simp add: wasm_version_len_def static_string_def split: option.splits)

lemma step_keeps_uninitialized:
  assumes "step v eng ver s c = Inr (r, s')" and "g_formatter s = None" and "c \<noteq> Init"
  shows "g_formatter s' = None"
proof (cases c)
  case (Format a al fn fl)
  with step_state [OF assms(1)] assms(2) show ?thesis by simp
next
  case (Dealloc p)
  with step_state [OF assms(1)] assms(2) show ?thesis
    by (auto dest: wasm_dealloc_cases)
next
  case FreeResult
  with step_state [OF assms(1)] assms(2) show ?thesis
    by (auto dest: wasm_free_result_cases)
qed (use step_state [OF assms(1)] assms(2,3) in
      \<open>auto simp: wasm_alloc_state wasm_version_state wasm_version_len_state
         wasm_set_style_def wasm_set_fallback_style_def host_store_def static_string_def
         split: option.splits\<close>)

lemma step_keeps_initialized:
  assumes "step v eng ver s c = Inr (r, s')" and "g_formatter s \<noteq> None"
  shows "g_formatter s' \<noteq> None"
proof (cases c)
  case (Format a al fn fl)
  from assms(2) obtain f where f: "g_formatter s = Some f" by auto
  with step_state [OF assms(1)] Format
  have "format_initialized eng f s a al fn fl = Inr s'" by simp
  from format_initialized_fields(1) [OF this] f show ?thesis by simp
next
  case (Dealloc p)
  with step_state [OF assms(1)] assms(2) show ?thesis
    by (auto dest: wasm_dealloc_cases)
next
  case FreeResult
  with step_state [OF assms(1)] assms(2) show ?thesis
    by (auto dest: wasm_free_result_cases)
qed (use step_state [OF assms(1)] assms(2) in
      \<open>auto simp: wasm_alloc_state wasm_version_state wasm_version_len_state wasm_init_def
         wasm_set_style_def wasm_set_fallback_style_def host_store_def static_string_def
         split: option.splits\<close>)

lemma run_keeps_uninitialized:
  assumes "run v eng ver s cs = Inr (rs, s')" and "g_formatter s = None" and "Init \<notin> set cs"
  shows "g_formatter s' = None"
  using assms
proof (induction cs arbitrary: s rs)
  case Nil
  then show ?case by simp
next
  case (Cons c cs)
  from Cons.prems(1) obtain r s1 rs1 where st: "step v eng ver s c = Inr (r, s1)"
    and rn: "run v eng ver s1 cs = Inr (rs1, s')"
    by (auto split: sum.splits)
  from Cons.prems(3) have "c \<noteq> Init" "Init \<notin> set cs" by auto
  from step_keeps_uninitialized [OF st Cons.prems(2) this(1)] Cons.IH [OF rn _ this(2)]
  show ?case by simp
qed



subsection \<open>Sizes and the slot invariant\<close>

lemma sint_string_size:
  assumes "length str < 2 ^ 31"
  shows "sint (string_size str) = int (length str)"
proof -
  have "sint (word_of_nat (length str) :: 32 word) = signed_take_bit 31 (int (length str))"
    by (simp add: signed_of_nat)
  also have "\<dots> = int (length str)"
    using assms by (intro signed_take_bit_int_eq_self) simp_all
  finally show ?thesis by (simp add: string_size_def)
qed

lemma unat_string_size:
  assumes "length str < 2 ^ 31"
  shows "unat (string_size str) = length str"
  using assms by (simp add: string_size_def unat_of_nat)

lemma string_size_eq_0:
  assumes "length str < 2 ^ 31"
  shows "(string_size str = 0) = (str = [])"
proof -
  have "(string_size str = 0) = (unat (string_size str) = 0)"
    by (simp add: unat_eq_0)
  with unat_string_size [OF assms] show ?thesis by simp
qed

lemma status_code_Error: "status_code st = 1 \<Longrightarrow> st = Error"
  by (cases st) (simp_all add: status_code_def)

lemma format_initialized_slot_inv:
  assumes "format_initialized eng f s a al fn fl = Inr s'"
    and "length (content (engine_result eng f s a al fn fl)) < 2 ^ 31"
    and "0 < brk s"
  shows "slot_inv s'"
proof -
  note flds = format_initialized_fields [OF assms(1)]
  let ?out = "content (engine_result eng f s a al fn fl)"
  show ?thesis
  proof (cases "?out = []")
    case True
    then show ?thesis by (simp add: slot_inv_def flds(8))
  next
    case False
    then have "0 < length ?out" by simp
    with sint_string_size [OF assms(2)] string_size_eq_0 [OF assms(2)] False assms(3)
    show ?thesis by (simp add: slot_inv_def flds(8))
  qed
qed

lemma step_keeps_brk_pos:
  assumes "step v eng ver s c = Inr (r, s')" and "0 < brk s"
  shows "0 < brk s'"
proof (cases c)
  case (Format a al fn fl)
  show ?thesis
  proof (cases "g_formatter s")
    case None
    with step_state [OF assms(1)] Format assms(2) show ?thesis by simp
  next
    case (Some f)
    with step_state [OF assms(1)] Format
    have "format_initialized eng f s a al fn fl = Inr s'" by simp
    from format_initialized_fields(7) [OF this] assms(2) show ?thesis by simp
  qed
next
  case (Dealloc p)
  with step_state [OF assms(1)] assms(2) show ?thesis
    by (auto dest: wasm_dealloc_cases)
next
  case FreeResult
  with step_state [OF assms(1)] assms(2) show ?thesis
    by (auto dest: wasm_free_result_cases)
qed (use step_state [OF assms(1)] assms(2) in
      \<open>auto simp: wasm_alloc_state wasm_version_state wasm_version_len_state wasm_init_def
         wasm_set_style_def wasm_set_fallback_style_def host_store_def static_string_def
         split: option.splits\<close>)

lemma step_keeps_slot_inv:
  assumes "step v eng ver s c = Inr (r, s')" and "slot_inv s" and "0 < brk s"
    and "engine_bounded eng"
  shows "slot_inv s'"
proof (cases c)
  case (Format a al fn fl)
  show ?thesis
  proof (cases "g_formatter s")
    case None
    with step_state [OF assms(1)] Format show ?thesis by (simp add: slot_inv_def)
  next
    case (Some f)
    with step_state [OF assms(1)] Format
    have fi: "format_initialized eng f s a al fn fl = Inr s'" by simp
    from assms(4) have "length (content (engine_result eng f s a al fn fl)) < 2 ^ 31"
      by (simp add: engine_bounded_def engine_result_def)
    from format_initialized_slot_inv [OF fi this assms(3)] show ?thesis .
  qed
next
  case (Dealloc p)
  with step_state [OF assms(1)] assms(2) show ?thesis
    by (auto simp: slot_inv_def dest!: wasm_dealloc_cases)
next
  case FreeResult
  with step_state [OF assms(1)] assms(2) show ?thesis
    by (auto simp: slot_inv_def dest!: wasm_free_result_cases)
qed (use step_state [OF assms(1)] assms(2) in
      \<open>auto simp: slot_inv_def wasm_alloc_state wasm_version_state wasm_version_len_state
         wasm_init_def wasm_set_style_def wasm_set_fallback_style_def host_store_def
         static_string_def split: option.splits\<close>)

lemma reachable_slot_inv:
  assumes "reachable v eng ver s" and "engine_bounded eng"
  shows "slot_inv s \<and> 0 < brk s"
  using assms(1)
proof (induction rule: reachable.induct)
  case reachable_initial
  show ?case by (simp add: slot_inv_def initial_state_def)
next
  case (reachable_step s c r s')
  with step_keeps_slot_inv [OF reachable_step.hyps(2) _ _ assms(2)]
    step_keeps_brk_pos [OF reachable_step.hyps(2)]
  show ?case by simp
qed

lemma format_initialized_stored:
  assumes fi: "format_initialized eng f s a al fn fl = Inr s'"
    and bound: "length (content (engine_result eng f s a al fn fl)) < 2 ^ 31"
    and ne: "content (engine_result eng f s a al fn fl) \<noteq> []"
  shows "content_ptr (g_last_result s') = brk s"
    and "(brk s, length (content (engine_result eng f s a al fn fl))) \<in> set (live s')"
    and "last (events s') = EvMalloc (brk s) (length (content (engine_result eng f s a al fn fl)))"
    and "sint (content_len (g_last_result s')) = int (length (content (engine_result eng f s a al fn fl)))"
    and "map (mem s') [brk s ..< brk s + length (content (engine_result eng f s a al fn fl))]
           = content (engine_result eng f s a al fn fl)"
proof -
  note flds = format_initialized_fields [OF fi]
  let ?out = "content (engine_result eng f s a al fn fl)"
  note u = unat_string_size [OF bound]
  show "content_ptr (g_last_result s') = brk s" using ne by (simp add: flds(8))
  show "(brk s, length ?out) \<in> set (live s')" using ne by (simp add: flds(6) u)
  show "last (events s') = EvMalloc (brk s) (length ?out)" using ne by (simp add: flds(5) u)
  show "sint (content_len (g_last_result s')) = int (length ?out)"
    using ne by (simp add: flds(8) sint_string_size [OF bound])
  show "map (mem s') [brk s ..< brk s + length ?out] = ?out"
  proof (rule nth_equalityI)
    show "length (map (mem s') [brk s ..< brk s + length ?out]) = length ?out" by simp
  next
    fix i assume "i < length (map (mem s') [brk s ..< brk s + length ?out])"
    then have i: "i < length ?out" by simp
    then have "map (mem s') [brk s ..< brk s + length ?out] ! i = mem s' (brk s + i)"
      by simp
    also have "\<dots> = c_str ?out ! i" using ne i by (simp add: flds(9) u)
    also have "\<dots> = ?out ! i" using i by (simp add: c_str_def nth_append)
    finally show "map (mem s') [brk s ..< brk s + length ?out] ! i = ?out ! i" .
  qed
qed

lemma run_reachable:
  assumes "run v eng ver s cs = Inr (rs, s')" and "reachable v eng ver s"
  shows "reachable v eng ver s'"
  using assms
proof (induction cs arbitrary: s rs)
  case Nil
  then show ?case by simp
next
  case (Cons c cs)
  from Cons.prems(1) obtain r s1 rs1 where st: "step v eng ver s c = Inr (r, s1)"
    and rn: "run v eng ver s1 cs = Inr (rs1, s')"
    by (auto split: sum.splits)
  from Cons.IH [OF rn reachable_step [OF Cons.prems(2) st]] show ?case .
qed

lemma engine_bounded_echo: "engine_bounded echo_engine"
  by (simp add: engine_bounded_def echo_engine_def min_def)

subsection \<open>The static version strings\<close>

lemma step_keeps_version_ver:
  assumes "step v eng ver s c = Inr (r, s')" and "version_ver s = Some x"
  shows "version_ver s' = Some x"
proof (cases c)
  case (Format a al fn fl)
  show ?thesis
  proof (cases "g_formatter s")
    case None
    with step_state [OF assms(1)] Format assms(2) show ?thesis by simp
  next
    case (Some f)
    with step_state [OF assms(1)] Format
    have "format_initialized eng f s a al fn fl = Inr s'" by simp
    from format_initialized_fields(2) [OF this] assms(2) show ?thesis by simp
  qed
next
  case (Dealloc p)
  with step_state [OF assms(1)] assms(2) show ?thesis
    by (auto dest: wasm_dealloc_cases)
next
  case FreeResult
  with step_state [OF assms(1)] assms(2) show ?thesis
    by (auto dest: wasm_free_result_cases)
qed (use step_state [OF assms(1)] assms(2) in
      \<open>auto simp: wasm_alloc_state wasm_version_state wasm_version_len_state wasm_init_def
         wasm_set_style_def wasm_set_fallback_style_def host_store_def static_string_def
         split: option.splits\<close>)

lemma step_keeps_version_len_ver:
  assumes "step v eng ver s c = Inr (r, s')" and "version_len_ver s = Some x"
  shows "version_len_ver s' = Some x"
proof (cases c)
  case (Format a al fn fl)
  show ?thesis
  proof (cases "g_formatter s")
    case None
    with step_state [OF assms(1)] Format assms(2) show ?thesis by simp
  next
    case (Some f)
    with step_state [OF assms(1)] Format
    have "format_initialized eng f s a al fn fl = Inr s'" by simp
    from format_initialized_fields(3) [OF this] assms(2) show ?thesis by simp
  qed
next
  case (Dealloc p)
  with step_state [OF assms(1)] assms(2) show ?thesis
    by (auto dest: wasm_dealloc_cases)
next
  case FreeResult
  with step_state [OF assms(1)] assms(2) show ?thesis
    by (auto dest: wasm_free_result_cases)
qed (use step_state [OF assms(1)] assms(2) in
      \<open>auto simp: wasm_alloc_state wasm_version_state wasm_version_len_state wasm_init_def
         wasm_set_style_def wasm_set_fallback_style_def host_store_def static_string_def
         split: option.splits\<close>)

lemma step_Version:
  assumes "step v eng ver s Version = Inr (r, s')"
  shows "\<exists>p str. version_ver s' = Some (p, str) \<and> r = RPtr p
           \<and> (version_ver s = None \<longrightarrow> p = brk s \<and> str = ver)"
  using assms
  by (auto simp: wasm_version_def static_string_def split: option.splits)

lemma step_VersionLen:
  assumes "step v eng ver s VersionLen = Inr (r, s')"
  shows "\<exists>p str. version_len_ver s' = Some (p, str) \<and> r = RInt (string_size str)
           \<and> (version_len_ver s = None \<longrightarrow> str = ver)"
  using assms
  by (auto simp: wasm_version_len_def static_string_def split: option.splits)

lemma run_length:
  "run v eng ver s cs = Inr (rs, s') \<Longrightarrow> length rs = length cs"
proof (induction cs arbitrary: s rs)
  case Nil
  then show ?case by simp
next
  case (Cons c cs)
  then show ?case by (auto split: sum.splits)
qed

lemma run_Cons_Inr:
  assumes "run v eng ver s (c # cs) = Inr (rs, s')"
  obtains r s1 rs1 where "step v eng ver s c = Inr (r, s1)"
    and "run v eng ver s1 cs = Inr (rs1, s')" and "rs = r # rs1"
  using assms by (auto split: sum.splits)

lemma run_version_known:
  assumes "run v eng ver s cs = Inr (rs, s')" and "version_ver s = Some (p, str)"
  shows "version_ver s' = Some (p, str)
     \<and> (\<forall>i < length cs. cs ! i = Version \<longrightarrow> rs ! i = RPtr p)"
  using assms
proof (induction cs arbitrary: s rs)
  case Nil
  then show ?case by simp
next
  case (Cons c cs)
  from Cons.prems(1) obtain r s1 rs1 where st: "step v eng ver s c = Inr (r, s1)"
    and rn: "run v eng ver s1 cs = Inr (rs1, s')" and rs: "rs = r # rs1"
    by (rule run_Cons_Inr)
  from step_keeps_version_ver [OF st Cons.prems(2)]
  have v1: "version_ver s1 = Some (p, str)" .
  from Cons.IH [OF rn v1] have ih: "version_ver s' = Some (p, str)"
    "\<forall>i < length cs. cs ! i = Version \<longrightarrow> rs1 ! i = RPtr p"
    by simp_all
  have hd: "c = Version \<longrightarrow> r = RPtr p"
  proof
    assume "c = Version"
    with st step_Version [of v eng ver s r s1] v1 show "r = RPtr p" by auto
  qed
  have "\<forall>i < length (c # cs). (c # cs) ! i = Version \<longrightarrow> rs ! i = RPtr p"
  proof (intro allI impI)
    fix i assume "i < length (c # cs)" and "(c # cs) ! i = Version"
    then show "rs ! i = RPtr p"
      using hd ih(2) rs by (cases i) auto
  qed
  with ih(1) show ?case by simp
qed

lemma run_version_same:
  assumes "run v eng ver s cs = Inr (rs, s')"
  shows "\<exists>p. \<forall>i < length cs. cs ! i = Version \<longrightarrow> rs ! i = RPtr p"
  using assms
proof (induction cs arbitrary: s rs)
  case Nil
  then show ?case by simp
next
  case (Cons c cs)
  from Cons.prems(1) obtain r s1 rs1 where st: "step v eng ver s c = Inr (r, s1)"
    and rn: "run v eng ver s1 cs = Inr (rs1, s')" and rs: "rs = r # rs1"
    by (rule run_Cons_Inr)
  show ?case
  proof (cases "c = Version")
    case True
    with st step_Version [of v eng ver s r s1]
    obtain p str where v1: "version_ver s1 = Some (p, str)" and r: "r = RPtr p" by auto
    from run_version_known [OF rn v1]
    have tl: "\<forall>i < length cs. cs ! i = Version \<longrightarrow> rs1 ! i = RPtr p" by simp
    have "\<forall>i < length (c # cs). (c # cs) ! i = Version \<longrightarrow> rs ! i = RPtr p"
    proof (intro allI impI)
      fix i assume "i < length (c # cs)" and "(c # cs) ! i = Version"
      then show "rs ! i = RPtr p" using r tl rs by (cases i) auto
    qed
    then show ?thesis by blast
  next
    case False
    from Cons.IH [OF rn] obtain p
      where tl: "\<forall>i < length cs. cs ! i = Version \<longrightarrow> rs1 ! i = RPtr p" by blast
    have "\<forall>i < length (c # cs). (c # cs) ! i = Version \<longrightarrow> rs ! i = RPtr p"
    proof (intro allI impI)
      fix i assume "i < length (c # cs)" and "(c # cs) ! i = Version"
      then show "rs ! i = RPtr p" using False tl rs by (cases i) auto
    qed
    then show ?thesis by blast
  qed
qed

lemma run_version_len_known:
  assumes "run v eng ver s cs = Inr (rs, s')" and "version_len_ver s = Some (p, str)"
  shows "version_len_ver s' = Some (p, str)
     \<and> (\<forall>i < length cs. cs ! i = VersionLen \<longrightarrow> rs ! i = RInt (string_size str))"
  using assms
proof (induction cs arbitrary: s rs)
  case Nil
  then show ?case by simp
next
  case (Cons c cs)
  from Cons.prems(1) obtain r s1 rs1 where st: "step v eng ver s c = Inr (r, s1)"
    and rn: "run v eng ver s1 cs = Inr (rs1, s')" and rs: "rs = r # rs1"
    by (rule run_Cons_Inr)
  from step_keeps_version_len_ver [OF st Cons.prems(2)]
  have v1: "version_len_ver s1 = Some (p, str)" .
  from Cons.IH [OF rn v1] have ih: "version_len_ver s' = Some (p, str)"
    "\<forall>i < length cs. cs ! i = VersionLen \<longrightarrow> rs1 ! i = RInt (string_size str)"
    by simp_all
  have hd: "c = VersionLen \<longrightarrow> r = RInt (string_size str)"
  proof
    assume "c = VersionLen"
    with st step_VersionLen [of v eng ver s r s1] v1 show "r = RInt (string_size str)" by auto
  qed
  have "\<forall>i < length (c # cs). (c # cs) ! i = VersionLen \<longrightarrow> rs ! i = RInt (string_size str)"
  proof (intro allI impI)
    fix i assume "i < length (c # cs)" and "(c # cs) ! i = VersionLen"
    then show "rs ! i = RInt (string_size str)"
      using hd ih(2) rs by (cases i) auto
  qed
  with ih(1) show ?case by simp
qed

lemma run_version_len_same:
  assumes "run v eng ver s cs = Inr (rs, s')"
  shows "\<exists>n. \<forall>i < length cs. cs ! i = VersionLen \<longrightarrow> rs ! i = RInt n"
  using assms
proof (induction cs arbitrary: s rs)
  case Nil
  then show ?case by simp
next
  case (Cons c cs)
  from Cons.prems(1) obtain r s1 rs1 where st: "step v eng ver s c = Inr (r, s1)"
    and rn: "run v eng ver s1 cs = Inr (rs1, s')" and rs: "rs = r # rs1"
    by (rule run_Cons_Inr)
  show ?case
  proof (cases "c = VersionLen")
    case True
    with st step_VersionLen [of v eng ver s r s1]
    obtain p str where v1: "version_len_ver s1 = Some (p, str)"
      and r: "r = RInt (string_size str)" by auto
    from run_version_len_known [OF rn v1]
    have tl: "\<forall>i < length cs. cs ! i = VersionLen \<longrightarrow> rs1 ! i = RInt (string_size str)"
      by simp
    have "\<forall>i < length (c # cs). (c # cs) ! i = VersionLen \<longrightarrow> rs ! i = RInt (string_size str)"
    proof (intro allI impI)
      fix i assume "i < length (c # cs)" and "(c # cs) ! i = VersionLen"
      then show "rs ! i = RInt (string_size str)" using r tl rs by (cases i) auto
    qed
    then show ?thesis by blast
  next
    case False
    from Cons.IH [OF rn] obtain n
      where tl: "\<forall>i < length cs. cs ! i = VersionLen \<longrightarrow> rs1 ! i = RInt n" by blast
    have "\<forall>i < length (c # cs). (c # cs) ! i = VersionLen \<longrightarrow> rs ! i = RInt n"
    proof (intro allI impI)
      fix i assume "i < length (c # cs)" and "(c # cs) ! i = VersionLen"
      then show "rs ! i = RInt n" using False tl rs by (cases i) auto
    qed
    then show ?thesis by blast
  qed
qed

lemma step_version_len_ver_value:
  assumes "step v eng ver s c = Inr (r, s')"
    and "version_len_ver s = None \<or> (\<exists>p. version_len_ver s = Some (p, ver))"
  shows "version_len_ver s' = None \<or> (\<exists>p. version_len_ver s' = Some (p, ver))"
proof (cases "version_len_ver s")
  case (Some x)
  with assms(2) step_keeps_version_len_ver [OF assms(1) Some] show ?thesis by auto
next
  case None
  show ?thesis
  proof (cases "version_len_ver s'")
    case None
    then show ?thesis by simp
  next
    case (Some y)
    have "c = VersionLen"
    proof (rule ccontr)
      assume n: "c \<noteq> VersionLen"
      have "version_len_ver s' = None"
      proof (cases c)
        case (Format a al fn fl)
        show ?thesis
        proof (cases "g_formatter s")
          case None
          with step_state [OF assms(1)] Format \<open>version_len_ver s = None\<close> show ?thesis by simp
        next
          case (Some f)
          with step_state [OF assms(1)] Format
          have "format_initialized eng f s a al fn fl = Inr s'" by simp
          from format_initialized_fields(3) [OF this] \<open>version_len_ver s = None\<close>
          show ?thesis by simp
        qed
      next
        case (Dealloc p)
        with step_state [OF assms(1)] \<open>version_len_ver s = None\<close> show ?thesis
          by (auto dest: wasm_dealloc_cases)
      next
        case FreeResult
        with step_state [OF assms(1)] \<open>version_len_ver s = None\<close> show ?thesis
          by (auto dest: wasm_free_result_cases)
      qed (use step_state [OF assms(1)] \<open>version_len_ver s = None\<close> n in
            \<open>auto simp: wasm_alloc_state wasm_version_state wasm_init_def
               wasm_set_style_def wasm_set_fallback_style_def host_store_def static_string_def
               split: option.splits\<close>)
      with Some show False by simp
    qed
    with assms(1) step_VersionLen [of v eng ver s r s'] None show ?thesis by auto
  qed
qed

lemma run_version_len_value:
  assumes "run v eng ver s cs = Inr (rs, s')"
    and "version_len_ver s = None \<or> (\<exists>p. version_len_ver s = Some (p, ver))"
  shows "\<forall>i < length cs. cs ! i = VersionLen \<longrightarrow> rs ! i = RInt (string_size ver)"
  using assms
proof (induction cs arbitrary: s rs)
  case Nil
  then show ?case by simp
next
  case (Cons c cs)
  from Cons.prems(1) obtain r s1 rs1 where st: "step v eng ver s c = Inr (r, s1)"
    and rn: "run v eng ver s1 cs = Inr (rs1, s')" and rs: "rs = r # rs1"
    by (rule run_Cons_Inr)
  note inv1 = step_version_len_ver_value [OF st Cons.prems(2)]
  from Cons.IH [OF rn inv1]
  have tl: "\<forall>i < length cs. cs ! i = VersionLen \<longrightarrow> rs1 ! i = RInt (string_size ver)" .
  have hd: "c = VersionLen \<longrightarrow> r = RInt (string_size ver)"
  proof
    assume c: "c = VersionLen"
    with st step_VersionLen [of v eng ver s r s1]
    obtain p str where v1: "version_len_ver s1 = Some (p, str)"
      and r: "r = RInt (string_size str)" by auto
    from inv1 v1 have "str = ver" by auto
    with r show "r = RInt (string_size ver)" by simp
  qed
  show ?case
  proof (intro allI impI)
    fix i assume "i < length (c # cs)" and "(c # cs) ! i = VersionLen"
    then show "rs ! i = RInt (string_size ver)" using hd tl rs by (cases i) auto
  qed
qed

lemma run_keeps_version_ver:
  assumes "run v eng ver s cs = Inr (rs, s')" and "version_ver s = Some x"
  shows "version_ver s' = Some x"
  using run_version_known [OF assms(1), of "fst x" "snd x"] assms(2) by simp

lemma run_keeps_version_len_ver:
  assumes "run v eng ver s cs = Inr (rs, s')" and "version_len_ver s = Some x"
  shows "version_len_ver s' = Some x"
  using run_version_len_known [OF assms(1), of "fst x" "snd x"] assms(2) by simp

subsection \<open>Changes of the Result Slot\<close>

lemma step_slot_change:
  assumes "step v eng ver s c = Inr (r, s')"
    and "g_last_result s' \<noteq> g_last_result s"
  shows "is_format c \<or> c = FreeResult"
proof (cases c)
  case (Dealloc p)
  with step_state [OF assms(1)] assms(2) show ?thesis
    by (auto dest: wasm_dealloc_cases)
qed (use step_state [OF assms(1)] assms(2) in
      \<open>auto simp: wasm_alloc_state wasm_version_state wasm_version_len_state wasm_init_def
         wasm_set_style_def wasm_set_fallback_style_def host_store_def static_string_def
         split: option.splits\<close>)

lemma step_stores_buffer:
  assumes "step v eng ver s c = Inr (r, s')"
    and "content_ptr (g_last_result s') \<noteq> nullptr"
    and "content_ptr (g_last_result s') \<noteq> content_ptr (g_last_result s)"
  shows "is_format c \<and> g_formatter s \<noteq> None"
proof -
  from assms(3) have "g_last_result s' \<noteq> g_last_result s" by auto
  from step_slot_change [OF assms(1) this] show ?thesis
  proof
    assume "c = FreeResult"
    with step_state [OF assms(1)] assms(2,3) show ?thesis
      by (auto dest: wasm_free_result_cases)
  next
    assume f: "is_format c"
    then obtain a al fn fl where c: "c = Format a al fn fl" by (cases c) auto
    have "g_formatter s \<noteq> None"
    proof
      assume "g_formatter s = None"
      with step_state [OF assms(1)] c have "s' = format_uninitialized s" by simp
      with assms(2) show False by simp
    qed
    with f show ?thesis by simp
  qed
qed

lemma step_uninitialized_slot:
  assumes "step v eng ver s c = Inr (r, s')" and "g_formatter s = None"
    and "content_ptr (g_last_result s) = nullptr \<and> content_len (g_last_result s) = 0"
  shows "content_ptr (g_last_result s') = nullptr \<and> content_len (g_last_result s') = 0"
proof (cases "g_last_result s' = g_last_result s")
  case True
  with assms(3) show ?thesis by simp
next
  case False
  from step_slot_change [OF assms(1) False] show ?thesis
  proof
    assume "c = FreeResult"
    with step_state [OF assms(1)] assms(3) show ?thesis
      by (auto dest: wasm_free_result_cases)
  next
    assume "is_format c"
    then obtain a al fn fl where c: "c = Format a al fn fl" by (cases c) auto
    with step_state [OF assms(1)] assms(2) have "s' = format_uninitialized s" by simp
    then show ?thesis by simp
  qed
qed

lemma reachable_uninitialized_slot:
  assumes "reachable v eng ver s"
  shows "g_formatter s = None \<longrightarrow>
    content_ptr (g_last_result s) = nullptr \<and> content_len (g_last_result s) = 0"
  using assms
proof (induction rule: reachable.induct)
  case reachable_initial
  show ?case by (simp add: initial_state_def)
next
  case (reachable_step s c r s')
  show ?case
  proof
    assume n': "g_formatter s' = None"
    have n: "g_formatter s = None"
    proof (rule ccontr)
      assume "g_formatter s \<noteq> None"
      from step_keeps_initialized [OF reachable_step.hyps(2) this] n' show False by simp
    qed
    with reachable_step.IH
    have "content_ptr (g_last_result s) = nullptr \<and> content_len (g_last_result s) = 0" by simp
    from step_uninitialized_slot [OF reachable_step.hyps(2) n this]
    show "content_ptr (g_last_result s') = nullptr \<and> content_len (g_last_result s') = 0" .
  qed
qed

text \<open>
  The two hypotheses on the heap used below are invariants: they hold in the initial state
  and every call keeps them, as long as the caller keeps the ownership rule.
\<close>

lemma initial_state_owned: "heap_ok initial_state \<and> slot_owned initial_state"
  by (simp add: heap_ok_def slot_owned_def initial_state_def)

lemma step_keeps_ownership:
  assumes st: "step v eng ver s c = Inr (r, s')"
    and ok: "heap_ok s" and own: "slot_owned s" and rs: "respects_slot s c"
  shows "heap_ok s' \<and> slot_owned s'"
proof (cases c)
  case (Format a al fn fl)
  show ?thesis
  proof (cases "g_formatter s")
    case None
    with step_state [OF st] Format have "s' = format_uninitialized s" by simp
    with ok show ?thesis by (simp add: heap_ok_def slot_owned_def)
  next
    case (Some f)
    with step_state [OF st] Format
    have "format_initialized eng f s a al fn fl = Inr s'" by simp
    with format_initialized_step [OF ok own, of eng f a al fn fl] show ?thesis by auto
  qed
next
  case (Dealloc p)
  with step_state [OF st] have "wasm_dealloc s p = Inr s'" by simp
  from wasm_dealloc_cases [OF this] show ?thesis
  proof (elim disjE conjE)
    assume "s' = s"
    with ok own show ?thesis by simp
  next
    assume p: "p \<noteq> nullptr"
      and s': "s' = s\<lparr>live := filter (\<lambda>b. fst b \<noteq> p) (live s), events := events s @ [EvFree p]\<rparr>"
    from rs Dealloc p have "p \<noteq> content_ptr (g_last_result s)" by simp
    with ok own show ?thesis
      by (fastforce simp: s' heap_ok_def slot_owned_def)
  qed
next
  case FreeResult
  with step_state [OF st] have "wasm_free_result s = Inr s'" by simp
  from wasm_free_result_cases [OF this] ok own show ?thesis
    by (fastforce simp: heap_ok_def slot_owned_def)
next
  case (Alloc n)
  with step_state [OF st] ok own show ?thesis
    by (auto simp: wasm_alloc_state heap_ok_def slot_owned_def trans_less_add1)
next
  case Version
  with step_state [OF st] ok own show ?thesis
    by (auto simp: wasm_version_state static_string_def heap_ok_def slot_owned_def
        trans_less_add1 split: option.splits)
next
  case VersionLen
  with step_state [OF st] ok own show ?thesis
    by (auto simp: wasm_version_len_state static_string_def heap_ok_def slot_owned_def
        trans_less_add1 split: option.splits)
next
  case (SetStyle p n)
  with step_state [OF st]
  have "s' = s \<or> (\<exists>f str. s' = s\<lparr>g_formatter := Some (with_style f str)\<rparr>)" by auto
  then show ?thesis
    by (elim disjE exE) (use ok own in \<open>simp_all add: heap_ok_def slot_owned_def\<close>)
next
  case (SetFallbackStyle p n)
  with step_state [OF st]
  have "s' = s \<or> (\<exists>f str. s' = s\<lparr>g_formatter := Some (with_fallback_style f str)\<rparr>)"
    by auto
  then show ?thesis
    by (elim disjE exE) (use ok own in \<open>simp_all add: heap_ok_def slot_owned_def\<close>)
qed (use step_state [OF st] ok own in
      \<open>auto simp: heap_ok_def slot_owned_def wasm_init_def host_store_def
         split: option.splits\<close>)

subsection \<open>Initialisation\<close>

lemma wasm_init_twice: "wasm_init (wasm_init s) = wasm_init s"
  by (simp add: wasm_init_def)

lemma wasm_init_funpow: "(wasm_init ^^ Suc n) s = wasm_init s"
  by (induction n) (simp_all add: wasm_init_twice)

text \<open>
  Claim C7. \<^verbatim>\<open>wasm_init\<close> is idempotent: any number \<open>n \<ge> 1\<close> of calls in a row leaves the
  state of a single call. The first call constructs the handle, a call with the handle
  present changes nothing, and the function has no failing outcome (it is total and
  returns the state).
\<close>

theorem wasm_init_idempotent:
  "(1 \<le> n \<longrightarrow> (wasm_init ^^ n) s = wasm_init s)
   \<and> (g_formatter s = None \<longrightarrow> wasm_init s = s\<lparr>g_formatter := Some new_ClangFormat\<rparr>)
   \<and> (g_formatter s \<noteq> None \<longrightarrow> wasm_init s = s)
   \<and> g_formatter (wasm_init s) \<noteq> None"
proof -
  have "1 \<le> n \<longrightarrow> (wasm_init ^^ n) s = wasm_init s"
  proof
    assume "1 \<le> n"
    then obtain m where "n = Suc m" by (cases n) auto
    then show "(wasm_init ^^ n) s = wasm_init s"
      using wasm_init_funpow [of m s] by simp
  qed
  then show ?thesis by (simp add: wasm_init_def)
qed

theorem wasm_init_idempotent_witness:
  "(1::nat) \<le> 3
   \<and> (wasm_init ^^ 3) initial_state = wasm_init initial_state
   \<and> g_formatter initial_state = None
   \<and> wasm_init initial_state = initial_state\<lparr>g_formatter := Some new_ClangFormat\<rparr>
   \<and> g_formatter (wasm_init initial_state) \<noteq> None
   \<and> wasm_init (wasm_init initial_state) = wasm_init initial_state"
  using wasm_init_idempotent [of 3 initial_state]
    wasm_init_idempotent [of 1 "wasm_init initial_state"]
  by (simp add: initial_state_def)

subsection \<open>Release of the predecessor buffer\<close>

text \<open>
  Claim C1. In a sequence of \<^verbatim>\<open>wasm_format\<close> calls with the handle initialised, started
  where the pointer in the Result Slot is null or a live block, no call faults (no
  \<^verbatim>\<open>free\<close> of a block that is not live), the trace of allocator calls follows the
  discipline of a single slot (every buffer of the slot is freed once, and before the
  next one is allocated), and the live blocks other than the slot's are the same at the end
  (nothing leaks). A single call frees the predecessor buffer once, when there is one, and
  then allocates at most once. With the handle uninitialised the calls return without
  any \<^verbatim>\<open>free\<close>: the trace and the live blocks stay as they are.
\<close>

theorem format_frees_predecessor_once:
  assumes "\<forall>c \<in> set cs. is_format c"
  shows "(g_formatter s \<noteq> None \<and> heap_ok s \<and> slot_owned s \<longrightarrow>
           (\<exists>rs s'. run v eng ver s cs = Inr (rs, s')
              \<and> g_formatter s' = g_formatter s \<and> heap_ok s' \<and> slot_owned s'
              \<and> (\<exists>tr. events s' = events s @ tr
                   \<and> slot_discipline (content_ptr (g_last_result s)) tr
                       = Some (content_ptr (g_last_result s')))
              \<and> other_blocks s' = other_blocks s))
       \<and> (g_formatter s = None \<longrightarrow>
           (\<exists>rs s'. run v eng ver s cs = Inr (rs, s')
              \<and> events s' = events s \<and> live s' = live s))
       \<and> (\<forall>f c cl fn fl r s'.
             g_formatter s = Some f \<and> step v eng ver s (Format c cl fn fl) = Inr (r, s') \<longrightarrow>
             events s' = events s
               @ (if content_ptr (g_last_result s) \<noteq> nullptr
                  then [EvFree (content_ptr (g_last_result s))] else [])
               @ (if content (engine_result eng f s c cl fn fl) \<noteq> []
                  then [EvMalloc (content_ptr (g_last_result s'))
                          (unat (string_size (content (engine_result eng f s c cl fn fl))))]
                  else []))"
proof (intro conjI impI allI)
  assume a: "g_formatter s \<noteq> None \<and> heap_ok s \<and> slot_owned s"
  then obtain f where f: "g_formatter s = Some f" by auto
  from run_formats_initialized [OF assms f, of v eng ver] a f
  show "\<exists>rs s'. run v eng ver s cs = Inr (rs, s')
          \<and> g_formatter s' = g_formatter s \<and> heap_ok s' \<and> slot_owned s'
          \<and> (\<exists>tr. events s' = events s @ tr
               \<and> slot_discipline (content_ptr (g_last_result s)) tr
                   = Some (content_ptr (g_last_result s')))
          \<and> other_blocks s' = other_blocks s"
    by simp
next
  assume "g_formatter s = None"
  from run_formats_uninitialized [OF assms this, of v eng ver]
  show "\<exists>rs s'. run v eng ver s cs = Inr (rs, s') \<and> events s' = events s \<and> live s' = live s"
    by blast
next
  fix f c cl fn fl r s'
  assume "g_formatter s = Some f \<and> step v eng ver s (Format c cl fn fl) = Inr (r, s')"
  then show "events s' = events s
               @ (if content_ptr (g_last_result s) \<noteq> nullptr
                  then [EvFree (content_ptr (g_last_result s))] else [])
               @ (if content (engine_result eng f s c cl fn fl) \<noteq> []
                  then [EvMalloc (content_ptr (g_last_result s'))
                          (unat (string_size (content (engine_result eng f s c cl fn fl))))]
                  else [])"
    by (blast intro: step_format_events)
qed

theorem format_frees_predecessor_once_witness:
  "is_format (Format 0 3 0 0) \<and> is_format (Format 0 2 0 0)
   \<and> g_formatter (wasm_init initial_state) \<noteq> None
   \<and> heap_ok (wasm_init initial_state) \<and> slot_owned (wasm_init initial_state)
   \<and> (\<exists>rs s'. run InlineRecord echo_engine [] (wasm_init initial_state)
                    [Format 0 3 0 0, Format 0 2 0 0] = Inr (rs, s')
          \<and> (\<exists>tr. events s' = events (wasm_init initial_state) @ tr
               \<and> slot_discipline (content_ptr (g_last_result (wasm_init initial_state))) tr
                   = Some (content_ptr (g_last_result s')))
          \<and> other_blocks s' = other_blocks (wasm_init initial_state)
          \<and> events s' = [EvMalloc 1024 3, EvFree 1024, EvMalloc 1027 2]
          \<and> live s' = [(1027, 2)])
   \<and> g_formatter initial_state = None
   \<and> (\<exists>rs s'. run InlineRecord echo_engine [] initial_state
                    [Format 0 3 0 0, Format 0 2 0 0] = Inr (rs, s')
          \<and> events s' = events initial_state \<and> live s' = live initial_state)"
proof -
  let ?cs = "[Format 0 3 0 0, Format 0 2 0 0]"
  let ?s = "wasm_init initial_state"
  have fm: "\<forall>c \<in> set ?cs. is_format c" by simp
  have hyp: "g_formatter ?s \<noteq> None \<and> heap_ok ?s \<and> slot_owned ?s"
    by (simp add: exec_defs)
  have un: "g_formatter initial_state = None" by (simp add: exec_defs)
  note t1 = format_frees_predecessor_once [OF fm, of ?s InlineRecord echo_engine "[]"]
  note t2 = format_frees_predecessor_once [OF fm, of initial_state InlineRecord echo_engine "[]"]
  from t1 hyp obtain rs s' where r: "run InlineRecord echo_engine [] ?s ?cs = Inr (rs, s')"
    and d: "\<exists>tr. events s' = events ?s @ tr
               \<and> slot_discipline (content_ptr (g_last_result ?s)) tr
                   = Some (content_ptr (g_last_result s'))"
    and ob: "other_blocks s' = other_blocks ?s"
    by blast
  have ev: "run InlineRecord echo_engine [] ?s ?cs = Inr (rs, s')
      \<longrightarrow> events s' = [EvMalloc 1024 3, EvFree 1024, EvMalloc 1027 2] \<and> live s' = [(1027, 2)]"
    by (auto simp add: exec_defs)
  from t2 un have u: "\<exists>rs s'. run InlineRecord echo_engine [] initial_state ?cs = Inr (rs, s')
          \<and> events s' = events initial_state \<and> live s' = live initial_state"
    by blast
  have fm': "is_format (Format 0 3 0 0) \<and> is_format (Format 0 2 0 0)" by simp
  from fm' hyp r d ob ev un u show ?thesis by blast
qed

subsection \<open>Calls before initialisation\<close>

text \<open>
  Claim C2. A call of \<^verbatim>\<open>wasm_format\<close> with \<^verbatim>\<open>g_formatter == nullptr\<close> returns at once with
  status 1 (Error) and leaves the Result Slot with status 1, a null pointer and length 0;
  nothing else of the state changes. This holds in both files. The handle is null in every
  state reached from the initial state by calls among which there is no \<^verbatim>\<open>wasm_init\<close>.
\<close>

theorem format_before_init:
  "(g_formatter s = None \<longrightarrow>
      wasm_format eng s c cl fn fl =
        Inr (\<lparr>status = 1, content_ptr = nullptr, content_len = 0\<rparr>,
             s\<lparr>g_last_result := \<lparr>status = 1, content_ptr = nullptr, content_len = 0\<rparr>\<rparr>)
      \<and> wasi_wasm_format eng s c cl fn fl =
        Inr (1, s\<lparr>g_last_result := \<lparr>status = 1, content_ptr = nullptr, content_len = 0\<rparr>\<rparr>))
   \<and> (Init \<notin> set cs \<and> run v eng ver initial_state cs = Inr (rs, s) \<longrightarrow> g_formatter s = None)"
proof (intro conjI impI)
  assume "g_formatter s = None"
  then show "wasm_format eng s c cl fn fl =
        Inr (\<lparr>status = 1, content_ptr = nullptr, content_len = 0\<rparr>,
             s\<lparr>g_last_result := \<lparr>status = 1, content_ptr = nullptr, content_len = 0\<rparr>\<rparr>)"
    by (simp add: wasm_format_def format_uninitialized_def)
next
  assume "g_formatter s = None"
  then show "wasi_wasm_format eng s c cl fn fl =
        Inr (1, s\<lparr>g_last_result := \<lparr>status = 1, content_ptr = nullptr, content_len = 0\<rparr>\<rparr>)"
    by (simp add: wasi_wasm_format_def format_uninitialized_def)
next
  assume "Init \<notin> set cs \<and> run v eng ver initial_state cs = Inr (rs, s)"
  then show "g_formatter s = None"
    using run_keeps_uninitialized [of v eng ver initial_state cs rs s]
    by (simp add: initial_state_def)
qed

theorem format_before_init_witness:
  "g_formatter initial_state = None
   \<and> wasm_format echo_engine initial_state 0 0 0 0 =
        Inr (\<lparr>status = 1, content_ptr = nullptr, content_len = 0\<rparr>,
             initial_state\<lparr>g_last_result := \<lparr>status = 1, content_ptr = nullptr, content_len = 0\<rparr>\<rparr>)
   \<and> Init \<notin> set [Alloc 4, SetStyle 1024 4, GetResultLen]
   \<and> (\<exists>rs s. run InlineRecord echo_engine [] initial_state
                  [Alloc 4, SetStyle 1024 4, GetResultLen] = Inr (rs, s)
          \<and> g_formatter s = None
          \<and> wasi_wasm_format echo_engine s 1024 4 0 0 =
               Inr (1, s\<lparr>g_last_result := \<lparr>status = 1, content_ptr = nullptr, content_len = 0\<rparr>\<rparr>))"
proof -
  let ?cs = "[Alloc 4, SetStyle 1024 4, GetResultLen]"
  have u: "g_formatter initial_state = None" by (simp add: initial_state_def)
  have ni: "Init \<notin> set ?cs" by simp
  have "\<exists>rs s. run InlineRecord echo_engine [] initial_state ?cs = Inr (rs, s)"
    by (simp add: exec_defs)
  then obtain rs s where r: "run InlineRecord echo_engine [] initial_state ?cs = Inr (rs, s)"
    by blast
  note t1 = format_before_init [of initial_state echo_engine 0 0 0 0 "[]" InlineRecord "[]" "[]"]
  note t2 = format_before_init [of s echo_engine 1024 4 0 0 ?cs InlineRecord "[]" rs]
  from t2 ni r have n: "g_formatter s = None" by blast
  with t2 have w: "wasi_wasm_format echo_engine s 1024 4 0 0 =
       Inr (1, s\<lparr>g_last_result := \<lparr>status = 1, content_ptr = nullptr, content_len = 0\<rparr>\<rparr>)"
    by blast
  from t1 u have f: "wasm_format echo_engine initial_state 0 0 0 0 =
        Inr (\<lparr>status = 1, content_ptr = nullptr, content_len = 0\<rparr>,
             initial_state\<lparr>g_last_result := \<lparr>status = 1, content_ptr = nullptr, content_len = 0\<rparr>\<rparr>)"
    by blast
  from u f ni r n w show ?thesis by blast
qed

subsection \<open>The style setters\<close>




subsection \<open>The two surfaces of \<^verbatim>\<open>wasm_format\<close>\<close>

text \<open>
  Claim C4. For every state, engine and arguments, \<^verbatim>\<open>wasm_format\<close> of \<^verbatim>\<open>wasi_binding.cc\<close>
  (status returned, pointer and length read by accessors) and \<^verbatim>\<open>wasm_format\<close> of
  \<^verbatim>\<open>part_000\<close> (the record returned) fault in the same cases and otherwise leave the same
  state, so the same Result Slot. The record that the second returns is what the three
  accessors read afterwards, and the status that the first returns is the status of the
  slot.
\<close>

theorem format_variants_agree:
  "wasi_wasm_format eng s c cl fn fl =
     map_sum id (\<lambda>(r, s'). (status r, s')) (wasm_format eng s c cl fn fl)
   \<and> map_sum id snd (wasi_wasm_format eng s c cl fn fl) =
     map_sum id snd (wasm_format eng s c cl fn fl)
   \<and> map_sum id fst (wasm_format eng s c cl fn fl) =
     map_sum id (\<lambda>(r, s'). \<lparr>status = wasm_get_result_status s',
                             content_ptr = wasm_get_result_ptr s',
                             content_len = wasm_get_result_len s'\<rparr>)
       (wasm_format eng s c cl fn fl)
   \<and> map_sum id fst (wasi_wasm_format eng s c cl fn fl) =
     map_sum id (\<lambda>(r, s'). status (g_last_result s')) (wasi_wasm_format eng s c cl fn fl)"
proof -
  have 1: "wasi_wasm_format eng s c cl fn fl =
     map_sum id (\<lambda>(r, s'). (status r, s')) (wasm_format eng s c cl fn fl)"
    by (rule wasi_format_eq)
  have 2: "map_sum id snd (wasi_wasm_format eng s c cl fn fl) =
     map_sum id snd (wasm_format eng s c cl fn fl)"
    unfolding 1 by (cases "wasm_format eng s c cl fn fl") auto
  have 3: "map_sum id fst (wasm_format eng s c cl fn fl) =
     map_sum id (\<lambda>(r, s'). \<lparr>status = wasm_get_result_status s',
                             content_ptr = wasm_get_result_ptr s',
                             content_len = wasm_get_result_len s'\<rparr>)
       (wasm_format eng s c cl fn fl)"
    by (cases "wasm_format eng s c cl fn fl")
      (auto simp: wasm_get_result_status_def wasm_get_result_ptr_def wasm_get_result_len_def
         dest: wasm_format_returns_slot)
  have 4: "map_sum id fst (wasi_wasm_format eng s c cl fn fl) =
     map_sum id (\<lambda>(r, s'). status (g_last_result s')) (wasi_wasm_format eng s c cl fn fl)"
    unfolding 1 by (cases "wasm_format eng s c cl fn fl") (auto dest: wasm_format_returns_slot)
  from 1 2 3 4 show ?thesis by blast
qed

subsection \<open>Release of the result\<close>

text \<open>
  Claim C6. In a state where the Result Slot satisfies its invariant and its pointer is
  null or a live block, \<^verbatim>\<open>wasm_free_result\<close> returns, afterwards the length read is 0 and the
  pointer read is null, and a second call returns the very same state. With the slot empty
  the call changes nothing.
\<close>

theorem free_result_idempotent:
  "(slot_inv s \<and> slot_owned s \<longrightarrow>
      (\<exists>s'. wasm_free_result s = Inr s'
         \<and> wasm_get_result_len s' = 0 \<and> wasm_get_result_ptr s' = nullptr
         \<and> wasm_free_result s' = Inr s'))
   \<and> (wasm_get_result_ptr s = nullptr \<longrightarrow> wasm_free_result s = Inr s)"
proof (intro conjI impI)
  assume a: "slot_inv s \<and> slot_owned s"
  show "\<exists>s'. wasm_free_result s = Inr s'
         \<and> wasm_get_result_len s' = 0 \<and> wasm_get_result_ptr s' = nullptr
         \<and> wasm_free_result s' = Inr s'"
  proof (cases "content_ptr (g_last_result s) = nullptr")
    case True
    with a have "content_len (g_last_result s) = 0" by (simp add: slot_inv_def)
    with True show ?thesis
      by (simp add: wasm_free_result_def wasm_get_result_len_def wasm_get_result_ptr_def)
  next
    case False
    with a have "content_ptr (g_last_result s) \<in> fst ` set (live s)"
      by (simp add: slot_owned_def)
    with False show ?thesis
      by (simp add: wasm_free_result_def free_def wasm_get_result_len_def
          wasm_get_result_ptr_def)
  qed
next
  assume "wasm_get_result_ptr s = nullptr"
  then show "wasm_free_result s = Inr s"
    by (simp add: wasm_free_result_def wasm_get_result_ptr_def)
qed

theorem free_result_idempotent_witness:
  "(\<exists>rs s. run InlineRecord echo_engine [] initial_state [Init, Format 0 3 0 0] = Inr (rs, s)
      \<and> slot_inv s \<and> slot_owned s \<and> wasm_get_result_ptr s = 1024 \<and> wasm_get_result_len s = 3
      \<and> (\<exists>s'. wasm_free_result s = Inr s'
            \<and> wasm_get_result_len s' = 0 \<and> wasm_get_result_ptr s' = nullptr
            \<and> events s' = [EvMalloc 1024 3, EvFree 1024]
            \<and> wasm_free_result s' = Inr s'))
   \<and> wasm_get_result_ptr initial_state = nullptr
   \<and> wasm_free_result initial_state = Inr initial_state"
proof -
  have "\<exists>rs s. run InlineRecord echo_engine [] initial_state [Init, Format 0 3 0 0] = Inr (rs, s)
      \<and> slot_inv s \<and> slot_owned s \<and> wasm_get_result_ptr s = 1024 \<and> wasm_get_result_len s = 3
      \<and> events s = [EvMalloc 1024 3]"
    by (simp add: exec_defs)
  then obtain rs s where r: "run InlineRecord echo_engine [] initial_state [Init, Format 0 3 0 0]
       = Inr (rs, s)"
    and i: "slot_inv s" and o: "slot_owned s"
    and p: "wasm_get_result_ptr s = 1024" and l: "wasm_get_result_len s = 3"
    and e: "events s = [EvMalloc 1024 3]"
    by (elim exE conjE)
  from free_result_idempotent [of s] i o obtain s' where f: "wasm_free_result s = Inr s'"
    and l': "wasm_get_result_len s' = 0" and p': "wasm_get_result_ptr s' = nullptr"
    and f': "wasm_free_result s' = Inr s'"
    by blast
  from f p e have e': "events s' = [EvMalloc 1024 3, EvFree 1024]"
    by (auto simp: wasm_get_result_ptr_def dest: wasm_free_result_cases)
  have n: "wasm_get_result_ptr initial_state = nullptr"
    by (simp add: exec_defs)
  with free_result_idempotent [of initial_state]
  have z: "wasm_free_result initial_state = Inr initial_state" by blast
  from r i o p l f l' p' e' f' n z show ?thesis by blast
qed

subsection \<open>The invariant of the Result Slot\<close>

text \<open>
  Claim C8. For an engine whose output fits \<^verbatim>\<open>int32_t\<close>, the invariant of the Result Slot
  (a buffer only with a positive length, length 0 exactly with the null pointer) holds in
  the initial state, is kept by every call, and so holds in every reachable state. A
  \<^verbatim>\<open>wasm_format\<close> call with the handle initialised leaves the slot empty when the engine's
  content is empty; otherwise the slot points to the block that \<^verbatim>\<open>malloc\<close> just returned
  (not null and not live before, for a sound heap), the block has exactly the length of the
  content, the memory there holds exactly the content (no terminator is counted or
  needed), and the length field is the length of the content.
\<close>

theorem result_slot_invariant:
  assumes "engine_bounded eng"
  shows "slot_inv initial_state
     \<and> (reachable v eng ver s \<longrightarrow> slot_inv s)
     \<and> (slot_inv s \<and> 0 < brk s \<and> step v eng ver s c = Inr (r, s') \<longrightarrow>
          slot_inv s' \<and> 0 < brk s')
     \<and> (g_formatter s = Some f \<and> step v eng ver s (Format a al fn fl) = Inr (r, s') \<longrightarrow>
          (content (engine_result eng f s a al fn fl) = [] \<longrightarrow>
             wasm_get_result_ptr s' = nullptr \<and> wasm_get_result_len s' = 0)
        \<and> (content (engine_result eng f s a al fn fl) \<noteq> [] \<longrightarrow>
             wasm_get_result_ptr s' = brk s
           \<and> (wasm_get_result_ptr s', length (content (engine_result eng f s a al fn fl)))
                 \<in> set (live s')
           \<and> last (events s') =
                 EvMalloc (wasm_get_result_ptr s')
                   (length (content (engine_result eng f s a al fn fl)))
           \<and> sint (wasm_get_result_len s') =
                 int (length (content (engine_result eng f s a al fn fl)))
           \<and> map (mem s') [wasm_get_result_ptr s' ..<
                    wasm_get_result_ptr s' + length (content (engine_result eng f s a al fn fl))]
                 = content (engine_result eng f s a al fn fl)
           \<and> (heap_ok s \<longrightarrow> wasm_get_result_ptr s' \<noteq> nullptr
                  \<and> wasm_get_result_ptr s' \<notin> fst ` set (live s))))"
proof (intro conjI impI)
  show "slot_inv initial_state" by (simp add: slot_inv_def initial_state_def)
next
  assume "reachable v eng ver s"
  from reachable_slot_inv [OF this assms] show "slot_inv s" by simp
next
  assume a: "slot_inv s \<and> 0 < brk s \<and> step v eng ver s c = Inr (r, s')"
  then show "slot_inv s'" using step_keeps_slot_inv [of v eng ver s c r s'] assms by simp
  from a show "0 < brk s'" using step_keeps_brk_pos [of v eng ver s c r s'] by simp
next
  assume a: "g_formatter s = Some f \<and> step v eng ver s (Format a al fn fl) = Inr (r, s')"
  then have fi: "format_initialized eng f s a al fn fl = Inr s'"
    by (blast intro: step_format_init_Inr)
  note flds = format_initialized_fields [OF fi]
  let ?out = "content (engine_result eng f s a al fn fl)"
  from assms have bound: "length ?out < 2 ^ 31"
    by (simp add: engine_bounded_def engine_result_def)
  {
    assume "?out = []"
    then show "wasm_get_result_ptr s' = nullptr" "wasm_get_result_len s' = 0"
      by (simp_all add: wasm_get_result_ptr_def wasm_get_result_len_def flds(8))
  next
    assume ne: "?out \<noteq> []"
    note st = format_initialized_stored [OF fi bound ne]
    have p: "wasm_get_result_ptr s' = brk s"
      by (simp add: wasm_get_result_ptr_def st(1))
    show "wasm_get_result_ptr s' = brk s" by (rule p)
    show "(wasm_get_result_ptr s', length ?out) \<in> set (live s')"
      unfolding p by (rule st(2))
    show "last (events s') = EvMalloc (wasm_get_result_ptr s') (length ?out)"
      unfolding p by (rule st(3))
    show "sint (wasm_get_result_len s') = int (length ?out)"
      unfolding wasm_get_result_len_def by (rule st(4))
    show "map (mem s') [wasm_get_result_ptr s' ..< wasm_get_result_ptr s' + length ?out] = ?out"
      unfolding p by (rule st(5))
    {
      assume ok: "heap_ok s"
      then show "wasm_get_result_ptr s' \<noteq> nullptr"
        unfolding p by (simp add: heap_ok_def)
      from ok show "wasm_get_result_ptr s' \<notin> fst ` set (live s)"
        unfolding p by (force simp: heap_ok_def)
    }
  }
qed

theorem result_slot_invariant_witness:
  "engine_bounded echo_engine
   \<and> slot_inv initial_state
   \<and> (\<exists>rs s. run InlineRecord echo_engine [] initial_state [Init, HostStore 0 [1, 2, 3]]
                   = Inr (rs, s)
        \<and> reachable InlineRecord echo_engine [] s \<and> slot_inv s \<and> heap_ok s
        \<and> g_formatter s = Some new_ClangFormat
        \<and> content (engine_result echo_engine new_ClangFormat s 0 3 0 0) = [1, 2, 3]
        \<and> content (engine_result echo_engine new_ClangFormat s 0 0 0 0) = []
        \<and> (\<exists>r s'. step InlineRecord echo_engine [] s (Format 0 3 0 0) = Inr (r, s')
              \<and> slot_inv s' \<and> wasm_get_result_ptr s' = 1024
              \<and> (1024, 3) \<in> set (live s')
              \<and> last (events s') = EvMalloc 1024 3
              \<and> sint (wasm_get_result_len s') = 3
              \<and> map (mem s') [1024 ..< 1024 + 3] = [1, 2, 3])
        \<and> (\<exists>r s'. step InlineRecord echo_engine [] s (Format 0 0 0 0) = Inr (r, s')
              \<and> wasm_get_result_ptr s' = nullptr \<and> wasm_get_result_len s' = 0))"
proof -
  note eb = engine_bounded_echo
  have "\<exists>rs s. run InlineRecord echo_engine [] initial_state [Init, HostStore 0 [1, 2, 3]]
                   = Inr (rs, s)
        \<and> heap_ok s \<and> g_formatter s = Some new_ClangFormat
        \<and> content (engine_result echo_engine new_ClangFormat s 0 3 0 0) = [1, 2, 3]
        \<and> content (engine_result echo_engine new_ClangFormat s 0 0 0 0) = []
        \<and> brk s = 1024
        \<and> (\<exists>r s'. step InlineRecord echo_engine [] s (Format 0 3 0 0) = Inr (r, s'))
        \<and> (\<exists>r s'. step InlineRecord echo_engine [] s (Format 0 0 0 0) = Inr (r, s'))"
    by (simp add: exec_defs upt_rec)
  then obtain rs s r1 s1 r2 s2
    where run: "run InlineRecord echo_engine [] initial_state [Init, HostStore 0 [1, 2, 3]]
                   = Inr (rs, s)"
      and ok: "heap_ok s" and g: "g_formatter s = Some new_ClangFormat"
      and o1: "content (engine_result echo_engine new_ClangFormat s 0 3 0 0) = [1, 2, 3]"
      and o2: "content (engine_result echo_engine new_ClangFormat s 0 0 0 0) = []"
      and b: "brk s = 1024"
      and st1: "step InlineRecord echo_engine [] s (Format 0 3 0 0) = Inr (r1, s1)"
      and st2: "step InlineRecord echo_engine [] s (Format 0 0 0 0) = Inr (r2, s2)"
    by (elim exE conjE)
  from run_reachable [OF run reachable_initial]
  have re: "reachable InlineRecord echo_engine [] s" .
  note t1 = result_slot_invariant
    [OF eb, where v = InlineRecord and ver = "[]" and s = s and f = new_ClangFormat
       and c = "Format 0 3 0 0" and r = r1 and s' = s1
       and a = 0 and al = 3 and fn = 0 and fl = 0]
  note t2 = result_slot_invariant
    [OF eb, where v = InlineRecord and ver = "[]" and s = s and f = new_ClangFormat
       and c = "Format 0 0 0 0" and r = r2 and s' = s2
       and a = 0 and al = 0 and fn = 0 and fl = 0]
  from t1 have i0: "slot_inv initial_state" by blast
  from t1 re have i: "slot_inv s" by blast
  from ok b have bp: "0 < brk s" by simp
  from t1 i bp st1 have i1: "slot_inv s1" by blast
  have ne: "[1 :: byte, 2, 3] \<noteq> []" by simp
  from t1 [unfolded o1] g st1 ne have c1: "wasm_get_result_ptr s1 = brk s
      \<and> (wasm_get_result_ptr s1, length [1 :: byte, 2, 3]) \<in> set (live s1)
      \<and> last (events s1) = EvMalloc (wasm_get_result_ptr s1) (length [1 :: byte, 2, 3])
      \<and> sint (wasm_get_result_len s1) = int (length [1 :: byte, 2, 3])
      \<and> map (mem s1) [wasm_get_result_ptr s1 ..<
             wasm_get_result_ptr s1 + length [1 :: byte, 2, 3]] = [1, 2, 3]"
    by blast
  then have p1: "wasm_get_result_ptr s1 = 1024" using b by simp
  have l3: "length [1 :: byte, 2, 3] = 3" by simp
  from c1 [unfolded p1 b l3] have c1': "wasm_get_result_ptr s1 = 1024
      \<and> (1024, 3) \<in> set (live s1)
      \<and> last (events s1) = EvMalloc 1024 3
      \<and> sint (wasm_get_result_len s1) = 3
      \<and> map (mem s1) [1024 ..< 1024 + 3] = [1, 2, 3]"
    using p1 by simp
  from t2 [unfolded o2] g st2 have c2: "wasm_get_result_ptr s2 = nullptr \<and> wasm_get_result_len s2 = 0"
    by blast
  from st1 i1 c1' have A: "\<exists>r s'. step InlineRecord echo_engine [] s (Format 0 3 0 0) = Inr (r, s')
              \<and> slot_inv s' \<and> wasm_get_result_ptr s' = 1024
              \<and> (1024, 3) \<in> set (live s')
              \<and> last (events s') = EvMalloc 1024 3
              \<and> sint (wasm_get_result_len s') = 3
              \<and> map (mem s') [1024 ..< 1024 + 3] = [1, 2, 3]"
    by (intro exI [of _ r1] exI [of _ s1] conjI) simp_all
  from st2 c2 have B: "\<exists>r s'. step InlineRecord echo_engine [] s (Format 0 0 0 0) = Inr (r, s')
              \<and> wasm_get_result_ptr s' = nullptr \<and> wasm_get_result_len s' = 0"
    by (intro exI [of _ r2] exI [of _ s2] conjI) simp_all
  from run re i ok g o1 o2 A B
  have C: "\<exists>rs s. run InlineRecord echo_engine [] initial_state [Init, HostStore 0 [1, 2, 3]]
                   = Inr (rs, s)
        \<and> reachable InlineRecord echo_engine [] s \<and> slot_inv s \<and> heap_ok s
        \<and> g_formatter s = Some new_ClangFormat
        \<and> content (engine_result echo_engine new_ClangFormat s 0 3 0 0) = [1, 2, 3]
        \<and> content (engine_result echo_engine new_ClangFormat s 0 0 0 0) = []
        \<and> (\<exists>r s'. step InlineRecord echo_engine [] s (Format 0 3 0 0) = Inr (r, s')
              \<and> slot_inv s' \<and> wasm_get_result_ptr s' = 1024
              \<and> (1024, 3) \<in> set (live s')
              \<and> last (events s') = EvMalloc 1024 3
              \<and> sint (wasm_get_result_len s') = 3
              \<and> map (mem s') [1024 ..< 1024 + 3] = [1, 2, 3])
        \<and> (\<exists>r s'. step InlineRecord echo_engine [] s (Format 0 0 0 0) = Inr (r, s')
              \<and> wasm_get_result_ptr s' = nullptr \<and> wasm_get_result_len s' = 0)"
    by (intro exI [of _ rs] exI [of _ s] conjI) simp_all
  from eb i0 C show ?thesis by (intro conjI) simp_all
qed

subsection \<open>The status Error and the content\<close>

text \<open>
  Claim C3, as amended. When the status after a \<^verbatim>\<open>wasm_format\<close> call is 1 (Error), either the
  handle was not initialised, and then the pointer read is null and the length read is 0;
  or the engine reported \<^verbatim>\<open>Error\<close>, and then the slot holds what the engine returned as
  content: null and 0 when that content is empty, and otherwise (for a sound heap and a
  content that fits \<^verbatim>\<open>int32_t\<close>) a buffer that is not null, with the content and its length.
  The code stores the content whatever the status is.
\<close>

theorem error_status_content:
  assumes "step v eng ver s (Format a al fn fl) = Inr (r, s')"
    and "wasm_get_result_status s' = 1"
  shows "(g_formatter s = None
          \<and> wasm_get_result_ptr s' = nullptr \<and> wasm_get_result_len s' = 0)
       \<or> (\<exists>f. g_formatter s = Some f
            \<and> result_status (engine_result eng f s a al fn fl) = Error
            \<and> (content (engine_result eng f s a al fn fl) = [] \<longrightarrow>
                 wasm_get_result_ptr s' = nullptr \<and> wasm_get_result_len s' = 0)
            \<and> (content (engine_result eng f s a al fn fl) \<noteq> []
                 \<and> length (content (engine_result eng f s a al fn fl)) < 2 ^ 31
                 \<and> heap_ok s \<longrightarrow>
                 wasm_get_result_ptr s' \<noteq> nullptr
                 \<and> sint (wasm_get_result_len s') =
                     int (length (content (engine_result eng f s a al fn fl)))
                 \<and> map (mem s') [wasm_get_result_ptr s' ..<
                        wasm_get_result_ptr s'
                        + length (content (engine_result eng f s a al fn fl))]
                     = content (engine_result eng f s a al fn fl)))"
proof (cases "g_formatter s")
  case None
  with step_state [OF assms(1)] have "s' = format_uninitialized s" by simp
  with None show ?thesis
    by (simp add: wasm_get_result_ptr_def wasm_get_result_len_def)
next
  case (Some f)
  from step_format_init_Inr [OF Some assms(1)]
  have fi: "format_initialized eng f s a al fn fl = Inr s'" .
  note flds = format_initialized_fields [OF fi]
  let ?out = "content (engine_result eng f s a al fn fl)"
  from assms(2) have "status_code (result_status (engine_result eng f s a al fn fl)) = 1"
    by (simp add: wasm_get_result_status_def flds(8))
  then have e: "result_status (engine_result eng f s a al fn fl) = Error"
    by (rule status_code_Error)
  have z: "?out = [] \<longrightarrow> wasm_get_result_ptr s' = nullptr \<and> wasm_get_result_len s' = 0"
    by (simp add: wasm_get_result_ptr_def wasm_get_result_len_def flds(8))
  have n: "?out \<noteq> [] \<and> length ?out < 2 ^ 31 \<and> heap_ok s \<longrightarrow>
      wasm_get_result_ptr s' \<noteq> nullptr
      \<and> sint (wasm_get_result_len s') = int (length ?out)
      \<and> map (mem s') [wasm_get_result_ptr s' ..< wasm_get_result_ptr s' + length ?out] = ?out"
  proof
    assume h: "?out \<noteq> [] \<and> length ?out < 2 ^ 31 \<and> heap_ok s"
    then have ne: "?out \<noteq> []" and bound: "length ?out < 2 ^ 31" and ok: "heap_ok s"
      by simp_all
    note st = format_initialized_stored [OF fi bound ne]
    have p: "wasm_get_result_ptr s' = brk s" by (simp add: wasm_get_result_ptr_def st(1))
    from ok have "wasm_get_result_ptr s' \<noteq> nullptr" unfolding p by (simp add: heap_ok_def)
    moreover have "sint (wasm_get_result_len s') = int (length ?out)"
      unfolding wasm_get_result_len_def by (rule st(4))
    moreover have "map (mem s') [wasm_get_result_ptr s' ..<
        wasm_get_result_ptr s' + length ?out] = ?out"
      unfolding p by (rule st(5))
    ultimately show "wasm_get_result_ptr s' \<noteq> nullptr
      \<and> sint (wasm_get_result_len s') = int (length ?out)
      \<and> map (mem s') [wasm_get_result_ptr s' ..< wasm_get_result_ptr s' + length ?out] = ?out"
      by blast
  qed
  from Some e z n show ?thesis by blast
qed

theorem error_status_content_witness:
  "(\<exists>r s'. step Accessor failing_engine [] (wasm_init initial_state) (Format 0 0 0 0)
             = Inr (r, s')
        \<and> wasm_get_result_status s' = 1
        \<and> g_formatter (wasm_init initial_state) = Some new_ClangFormat
        \<and> content (engine_result failing_engine new_ClangFormat (wasm_init initial_state)
                     0 0 0 0) = [101, 114, 114]
        \<and> heap_ok (wasm_init initial_state)
        \<and> result_status (engine_result failing_engine new_ClangFormat
                           (wasm_init initial_state) 0 0 0 0) = Error
        \<and> wasm_get_result_ptr s' \<noteq> nullptr
        \<and> sint (wasm_get_result_len s') = 3
        \<and> map (mem s') [wasm_get_result_ptr s' ..< wasm_get_result_ptr s' + 3]
            = [101, 114, 114])
   \<and> (\<exists>r s'. step Accessor failing_engine [] initial_state (Format 0 0 0 0) = Inr (r, s')
        \<and> wasm_get_result_status s' = 1
        \<and> g_formatter initial_state = None
        \<and> wasm_get_result_ptr s' = nullptr \<and> wasm_get_result_len s' = 0)"
proof -
  let ?s = "wasm_init initial_state"
  let ?out = "content (engine_result failing_engine new_ClangFormat ?s 0 0 0 0)"
  have "\<exists>r s'. step Accessor failing_engine [] ?s (Format 0 0 0 0) = Inr (r, s')
       \<and> wasm_get_result_status s' = 1"
    by (simp add: exec_defs)
  then obtain r1 s1 where st1: "step Accessor failing_engine [] ?s (Format 0 0 0 0) = Inr (r1, s1)"
    and e1: "wasm_get_result_status s1 = 1"
    by (elim exE conjE)
  have g: "g_formatter ?s = Some new_ClangFormat" and ok: "heap_ok ?s"
    and o: "?out = [101, 114, 114]"
    by (simp_all add: exec_defs)
  have l3: "length [101 :: byte, 114, 114] = 3" by simp
  have ne: "[101 :: byte, 114, 114] \<noteq> []" and b: "length [101 :: byte, 114, 114] < 2 ^ 31"
    by simp_all
  from error_status_content [OF st1 e1] g
  have c0: "result_status (engine_result failing_engine new_ClangFormat ?s 0 0 0 0) = Error
       \<and> (?out \<noteq> [] \<and> length ?out < 2 ^ 31 \<and> heap_ok ?s \<longrightarrow>
            wasm_get_result_ptr s1 \<noteq> nullptr
            \<and> sint (wasm_get_result_len s1) = int (length ?out)
            \<and> map (mem s1) [wasm_get_result_ptr s1 ..< wasm_get_result_ptr s1 + length ?out]
                = ?out)"
    by simp
  from c0 [unfolded o] ne b ok
  have c: "result_status (engine_result failing_engine new_ClangFormat ?s 0 0 0 0) = Error
       \<and> wasm_get_result_ptr s1 \<noteq> nullptr
       \<and> sint (wasm_get_result_len s1) = int (length [101 :: byte, 114, 114])
       \<and> map (mem s1) [wasm_get_result_ptr s1 ..<
             wasm_get_result_ptr s1 + length [101 :: byte, 114, 114]] = [101, 114, 114]"
    by blast
  from c [unfolded l3] st1 e1 g o ok
  have A: "\<exists>r s'. step Accessor failing_engine [] ?s (Format 0 0 0 0) = Inr (r, s')
        \<and> wasm_get_result_status s' = 1
        \<and> g_formatter ?s = Some new_ClangFormat
        \<and> ?out = [101, 114, 114]
        \<and> heap_ok ?s
        \<and> result_status (engine_result failing_engine new_ClangFormat ?s 0 0 0 0) = Error
        \<and> wasm_get_result_ptr s' \<noteq> nullptr
        \<and> sint (wasm_get_result_len s') = 3
        \<and> map (mem s') [wasm_get_result_ptr s' ..< wasm_get_result_ptr s' + 3]
            = [101, 114, 114]"
    by (intro exI [of _ r1] exI [of _ s1] conjI) simp_all
  have "\<exists>r s'. step Accessor failing_engine [] initial_state (Format 0 0 0 0) = Inr (r, s')
       \<and> wasm_get_result_status s' = 1"
    by (simp add: exec_defs)
  then obtain r2 s2
    where st2: "step Accessor failing_engine [] initial_state (Format 0 0 0 0) = Inr (r2, s2)"
    and e2: "wasm_get_result_status s2 = 1"
    by (elim exE conjE)
  have u: "g_formatter initial_state = None" by (simp add: initial_state_def)
  from error_status_content [OF st2 e2] u
  have d: "wasm_get_result_ptr s2 = nullptr \<and> wasm_get_result_len s2 = 0" by simp
  from st2 e2 u d
  have B: "\<exists>r s'. step Accessor failing_engine [] initial_state (Format 0 0 0 0) = Inr (r, s')
        \<and> wasm_get_result_status s' = 1
        \<and> g_formatter initial_state = None
        \<and> wasm_get_result_ptr s' = nullptr \<and> wasm_get_result_len s' = 0"
    by (intro exI [of _ r2] exI [of _ s2] conjI) simp_all
  from A B show ?thesis by (intro conjI)
qed

text \<open>
  The claim as stated fails: with an engine that reports \<^verbatim>\<open>Error\<close> together with a
  message of three bytes, the status is 1, the length read is 3 and the pointer is not null.
\<close>

theorem error_status_content_counterexample:
  "\<not> isl (wasm_format failing_engine (wasm_init initial_state) 0 0 0 0)
   \<and> wasm_get_result_status
        (snd (projr (wasm_format failing_engine (wasm_init initial_state) 0 0 0 0))) = 1
   \<and> wasm_get_result_len
        (snd (projr (wasm_format failing_engine (wasm_init initial_state) 0 0 0 0))) = 3
   \<and> wasm_get_result_ptr
        (snd (projr (wasm_format failing_engine (wasm_init initial_state) 0 0 0 0))) = 1024
   \<and> \<not> isl (wasi_wasm_format failing_engine (wasm_init initial_state) 0 0 0 0)
   \<and> fst (projr (wasi_wasm_format failing_engine (wasm_init initial_state) 0 0 0 0)) = 1
   \<and> wasm_get_result_len
        (snd (projr (wasi_wasm_format failing_engine (wasm_init initial_state) 0 0 0 0))) = 3"
  by (simp add: exec_defs)

subsection \<open>The version string\<close>

text \<open>
  Claim C9. In any sequence of calls that runs without a fault, from any state, every call
  of \<^verbatim>\<open>wasm_version\<close> returns the same pointer and every call of \<^verbatim>\<open>wasm_version_len\<close>
  returns the same length, whatever calls lie between them (\<^verbatim>\<open>wasm_format\<close> among them). A
  static \<^verbatim>\<open>ver\<close> that has been constructed is never changed again, and when it is
  constructed within the sequence, the length returned is the size of
  \<^verbatim>\<open>ClangFormat::version()\<close>.
\<close>

theorem version_is_cached:
  assumes "run v eng ver s cs = Inr (rs, s')" and "i < length cs" and "j < length cs"
  shows "(cs ! i = Version \<and> cs ! j = Version \<longrightarrow> rs ! i = rs ! j)
     \<and> (cs ! i = VersionLen \<and> cs ! j = VersionLen \<longrightarrow> rs ! i = rs ! j)
     \<and> (version_ver s \<noteq> None \<longrightarrow> version_ver s' = version_ver s)
     \<and> (version_len_ver s \<noteq> None \<longrightarrow> version_len_ver s' = version_len_ver s)
     \<and> (version_len_ver s = None \<and> cs ! i = VersionLen \<longrightarrow> rs ! i = RInt (string_size ver))"
proof (intro conjI impI)
  assume a: "cs ! i = Version \<and> cs ! j = Version"
  from run_version_same [OF assms(1)] obtain p
    where "\<forall>i < length cs. cs ! i = Version \<longrightarrow> rs ! i = RPtr p" by blast
  with a assms(2,3) show "rs ! i = rs ! j" by simp
next
  assume a: "cs ! i = VersionLen \<and> cs ! j = VersionLen"
  from run_version_len_same [OF assms(1)] obtain n
    where "\<forall>i < length cs. cs ! i = VersionLen \<longrightarrow> rs ! i = RInt n" by blast
  with a assms(2,3) show "rs ! i = rs ! j" by simp
next
  assume "version_ver s \<noteq> None"
  then obtain x where "version_ver s = Some x" by auto
  with run_keeps_version_ver [OF assms(1)] show "version_ver s' = version_ver s" by simp
next
  assume "version_len_ver s \<noteq> None"
  then obtain x where "version_len_ver s = Some x" by auto
  with run_keeps_version_len_ver [OF assms(1)] show "version_len_ver s' = version_len_ver s"
    by simp
next
  assume a: "version_len_ver s = None \<and> cs ! i = VersionLen"
  with run_version_len_value [OF assms(1)] assms(2)
  show "rs ! i = RInt (string_size ver)" by simp
qed

theorem version_is_cached_witness:
  "(\<exists>s'. run InlineRecord echo_engine [99, 102] initial_state
            [Version, VersionLen, Init, HostStore 0 [1, 2, 3], Format 0 3 0 0, Version,
             FreeResult, VersionLen]
          = Inr ([RPtr 1024, RInt 2, RVoid, RVoid,
                  RResult \<lparr>status = 0, content_ptr = 1030, content_len = 3\<rparr>,
                  RPtr 1024, RVoid, RInt 2], s')
        \<and> version_ver s' = Some (1024, [99, 102]))
   \<and> (0 :: nat) < length [Version, VersionLen, Init, HostStore 0 [1, 2, 3], Format 0 3 0 0,
                           Version, FreeResult, VersionLen]
   \<and> (5 :: nat) < length [Version, VersionLen, Init, HostStore 0 [1, 2, 3], Format 0 3 0 0,
                           Version, FreeResult, VersionLen]
   \<and> [Version, VersionLen, Init, HostStore 0 [1, 2, 3], Format 0 3 0 0, Version,
        FreeResult, VersionLen] ! 0 = Version
   \<and> [Version, VersionLen, Init, HostStore 0 [1, 2, 3], Format 0 3 0 0, Version,
        FreeResult, VersionLen] ! 5 = Version
   \<and> [RPtr 1024, RInt 2, RVoid, RVoid,
        RResult \<lparr>status = 0, content_ptr = 1030, content_len = 3\<rparr>,
        RPtr 1024, RVoid, RInt 2] ! 0
     = [RPtr 1024, RInt 2, RVoid, RVoid,
        RResult \<lparr>status = 0, content_ptr = 1030, content_len = 3\<rparr>,
        RPtr 1024, RVoid, RInt 2] ! 5"
proof -
  let ?cs = "[Version, VersionLen, Init, HostStore 0 [1, 2, 3], Format 0 3 0 0, Version,
              FreeResult, VersionLen]"
  let ?rs = "[RPtr 1024, RInt 2, RVoid, RVoid,
              RResult \<lparr>status = 0, content_ptr = 1030, content_len = 3\<rparr>,
              RPtr 1024, RVoid, RInt 2]"
  have "\<exists>s'. run InlineRecord echo_engine [99, 102] initial_state ?cs = Inr (?rs, s')
        \<and> version_ver s' = Some (1024, [99, 102])"
    by (simp add: exec_defs upt_rec)
  then obtain s' where r: "run InlineRecord echo_engine [99, 102] initial_state ?cs = Inr (?rs, s')"
    and vv: "version_ver s' = Some (1024, [99, 102])"
    by (elim exE conjE)
  have i: "(0 :: nat) < length ?cs" and j: "(5 :: nat) < length ?cs" by simp_all
  have ci: "?cs ! 0 = Version" and cj: "?cs ! 5 = Version" by simp_all
  from version_is_cached [OF r i j] ci cj have e: "?rs ! 0 = ?rs ! 5" by blast
  from r vv have A: "\<exists>s'. run InlineRecord echo_engine [99, 102] initial_state ?cs = Inr (?rs, s')
        \<and> version_ver s' = Some (1024, [99, 102])"
    by (intro exI [of _ s'] conjI)
  from A i j ci cj e show ?thesis by (intro conjI)
qed

subsection \<open>The slot while the handle is uninitialised\<close>

text \<open>
  Claim C10. In every state reachable from the initial state in which \<^verbatim>\<open>g_formatter\<close> is
  null, the Result Slot holds the null pointer (and length 0), so the early return of
  \<^verbatim>\<open>wasm_format\<close>, which overwrites the fields without a \<^verbatim>\<open>free\<close>, loses no block: the
  live blocks are the same after it. Initialisation is not undone by any call, and a call
  that leaves a new buffer in the slot is a \<^verbatim>\<open>wasm_format\<close> with the handle initialised.
\<close>

theorem uninitialized_slot_is_empty:
  "(reachable v eng ver s \<and> g_formatter s = None \<longrightarrow>
      content_ptr (g_last_result s) = nullptr \<and> content_len (g_last_result s) = 0
      \<and> (\<exists>r s'. step v eng ver s (Format a al fn fl) = Inr (r, s')
            \<and> live s' = live s \<and> events s' = events s
            \<and> other_blocks s' = other_blocks s))
   \<and> (g_formatter s \<noteq> None \<and> step v eng ver s c = Inr (r, s') \<longrightarrow> g_formatter s' \<noteq> None)
   \<and> (step v eng ver s c = Inr (r, s')
        \<and> content_ptr (g_last_result s') \<noteq> nullptr
        \<and> content_ptr (g_last_result s') \<noteq> content_ptr (g_last_result s) \<longrightarrow>
        is_format c \<and> g_formatter s \<noteq> None)"
proof (intro conjI impI)
  assume a: "reachable v eng ver s \<and> g_formatter s = None"
  with reachable_uninitialized_slot [of v eng ver s]
  have e: "content_ptr (g_last_result s) = nullptr \<and> content_len (g_last_result s) = 0"
    by simp
  then show "content_ptr (g_last_result s) = nullptr" "content_len (g_last_result s) = 0"
    by simp_all
  from a have n: "g_formatter s = None" by simp
  have ob: "other_blocks (format_uninitialized s) = other_blocks s"
    using e by (simp add: other_blocks_def)
  from step_format_uninit [OF n, of v eng ver a al fn fl] ob
  show "\<exists>r s'. step v eng ver s (Format a al fn fl) = Inr (r, s')
            \<and> live s' = live s \<and> events s' = events s
            \<and> other_blocks s' = other_blocks s"
    by (intro exI [of _ "format_uninitialized s"] exI conjI) simp_all
next
  assume "g_formatter s \<noteq> None \<and> step v eng ver s c = Inr (r, s')"
  then show "g_formatter s' \<noteq> None"
    using step_keeps_initialized [of v eng ver s c r s'] by simp
next
  assume a: "step v eng ver s c = Inr (r, s')
        \<and> content_ptr (g_last_result s') \<noteq> nullptr
        \<and> content_ptr (g_last_result s') \<noteq> content_ptr (g_last_result s)"
  with step_stores_buffer [of v eng ver s c r s']
  show "is_format c" "g_formatter s \<noteq> None" by simp_all
qed

theorem uninitialized_slot_is_empty_witness:
  "(\<exists>rs s. run InlineRecord echo_engine [] initial_state
               [Alloc 4, Format 1024 4 0 0, FreeResult] = Inr (rs, s)
       \<and> reachable InlineRecord echo_engine [] s \<and> g_formatter s = None
       \<and> content_ptr (g_last_result s) = nullptr \<and> content_len (g_last_result s) = 0
       \<and> live s = [(1024, 4)]
       \<and> (\<exists>r s'. step InlineRecord echo_engine [] s (Format 1024 4 0 0) = Inr (r, s')
             \<and> live s' = live s \<and> events s' = events s
             \<and> other_blocks s' = other_blocks s))
   \<and> g_formatter (wasm_init initial_state) \<noteq> None
   \<and> (\<exists>r s'. step InlineRecord echo_engine [] (wasm_init initial_state) (Format 0 3 0 0)
              = Inr (r, s')
       \<and> content_ptr (g_last_result s') \<noteq> nullptr
       \<and> content_ptr (g_last_result s') \<noteq> content_ptr (g_last_result (wasm_init initial_state))
       \<and> g_formatter s' \<noteq> None
       \<and> is_format (Format 0 3 0 0))"
proof -
  let ?cs = "[Alloc 4, Format 1024 4 0 0, FreeResult]"
  have "\<exists>rs s. run InlineRecord echo_engine [] initial_state ?cs = Inr (rs, s)
       \<and> g_formatter s = None \<and> live s = [(1024, 4)]"
    by (simp add: exec_defs)
  then obtain rs s where run: "run InlineRecord echo_engine [] initial_state ?cs = Inr (rs, s)"
    and n: "g_formatter s = None" and lv: "live s = [(1024, 4)]"
    by (elim exE conjE)
  from run_reachable [OF run reachable_initial]
  have re: "reachable InlineRecord echo_engine [] s" .
  note t1 = uninitialized_slot_is_empty
    [where v = InlineRecord and eng = echo_engine and ver = "[]" and s = s
       and a = 1024 and al = 4 and fn = 0 and fl = 0]
  from t1 re n have e: "content_ptr (g_last_result s) = nullptr"
    "content_len (g_last_result s) = 0"
    and f: "\<exists>r s'. step InlineRecord echo_engine [] s (Format 1024 4 0 0) = Inr (r, s')
             \<and> live s' = live s \<and> events s' = events s
             \<and> other_blocks s' = other_blocks s"
    by blast+
  from run re n e lv f
  have A: "\<exists>rs s. run InlineRecord echo_engine [] initial_state ?cs = Inr (rs, s)
       \<and> reachable InlineRecord echo_engine [] s \<and> g_formatter s = None
       \<and> content_ptr (g_last_result s) = nullptr \<and> content_len (g_last_result s) = 0
       \<and> live s = [(1024, 4)]
       \<and> (\<exists>r s'. step InlineRecord echo_engine [] s (Format 1024 4 0 0) = Inr (r, s')
             \<and> live s' = live s \<and> events s' = events s
             \<and> other_blocks s' = other_blocks s)"
    by (intro exI [of _ rs] exI [of _ s] conjI) simp_all
  let ?i = "wasm_init initial_state"
  have g: "g_formatter ?i \<noteq> None" by (simp add: exec_defs)
  have "\<exists>r s'. step InlineRecord echo_engine [] ?i (Format 0 3 0 0) = Inr (r, s')
       \<and> content_ptr (g_last_result s') \<noteq> nullptr
       \<and> content_ptr (g_last_result s') \<noteq> content_ptr (g_last_result ?i)"
    by (simp add: exec_defs)
  then obtain r1 s1 where st: "step InlineRecord echo_engine [] ?i (Format 0 3 0 0) = Inr (r1, s1)"
    and p1: "content_ptr (g_last_result s1) \<noteq> nullptr"
    and p2: "content_ptr (g_last_result s1) \<noteq> content_ptr (g_last_result ?i)"
    by (elim exE conjE)
  note t2 = uninitialized_slot_is_empty
    [where v = InlineRecord and eng = echo_engine and ver = "[]" and s = ?i
       and c = "Format 0 3 0 0" and r = r1 and s' = s1]
  from t2 g st have g1: "g_formatter s1 \<noteq> None" by blast
  from t2 st p1 p2 have fm: "is_format (Format 0 3 0 0)" by blast
  from st p1 p2 g1 fm
  have B: "\<exists>r s'. step InlineRecord echo_engine [] ?i (Format 0 3 0 0) = Inr (r, s')
       \<and> content_ptr (g_last_result s') \<noteq> nullptr
       \<and> content_ptr (g_last_result s') \<noteq> content_ptr (g_last_result ?i)
       \<and> g_formatter s' \<noteq> None
       \<and> is_format (Format 0 3 0 0)"
    by (intro exI [of _ r1] exI [of _ s1] conjI) simp_all
  from A g B show ?thesis by (intro conjI)
qed

end
